theory Spec2Isabelle
  imports
    Main
    "HOL-Library.Word"
    "HOL-Library.Char_ord"
    "HOL-Library.List_Lexorder"
    "HOL-Library.Product_Lexorder"
    "HOL-Library.Multiset"
begin

unbundle bit_operations_syntax

section \<open>Characters and the C library predicates\<close>

text \<open>
  The program never calls \<^verbatim>\<open>setlocale\<close>, so \<^verbatim>\<open>isdigit\<close>, \<^verbatim>\<open>isspace\<close> and
  \<^verbatim>\<open>toupper\<close> are those of the "C" locale. A \<^verbatim>\<open>char\<close> is a byte; \<^verbatim>\<open>std::string\<close>
  comparison is lexicographic on unsigned bytes, which is the order of
  \<^typ>\<open>char list\<close> here.
\<close>

definition NL :: char where "NL = CHR 0x0A"
definition CR :: char where "CR = CHR 0x0D"
definition TAB :: char where "TAB = CHR 0x09"
definition NUL :: char where "NUL = CHR 0x00"

definition isdigit :: "char \<Rightarrow> bool" where
  "isdigit c = (48 \<le> (of_char c :: nat) \<and> (of_char c :: nat) \<le> 57)"

definition isspace :: "char \<Rightarrow> bool" where
  "isspace c = (c = CHR '' '' \<or> (9 \<le> (of_char c :: nat) \<and> (of_char c :: nat) \<le> 13))"

definition toupper :: "char \<Rightarrow> char" where
  "toupper c = (if 97 \<le> (of_char c :: nat) \<and> (of_char c :: nat) \<le> 122
                then char_of ((of_char c :: nat) - 32) else c)"

section \<open>The task record\<close>

text \<open>
  \<^verbatim>\<open>struct Task { int id; bool done; char priority; std::optional<std::string> due;
  std::string title; }\<close>. The fields carry the prefix \<open>t_\<close> because \<open>id\<close> and
  \<open>done\<close> are taken in Isabelle. \<^verbatim>\<open>int\<close> is a 32-bit two's complement word, read
  through \<^const>\<open>sint\<close> wherever the source compares or prints it.
\<close>

record Task =
  t_id :: "32 word"
  t_done :: bool
  t_priority :: char
  t_due :: "string option"
  t_title :: string

section \<open>Utilities: trim, is_valid_date, prio_weight\<close>

text \<open>\<^verbatim>\<open>s.find_first_not_of(" \t\n\r")\<close>: the first index whose character is not in the set.\<close>

definition trim_chars :: "char set" where
  "trim_chars = {CHR '' '', TAB, NL, CR}"

fun find_first_not_of :: "string \<Rightarrow> char set \<Rightarrow> nat option" where
  "find_first_not_of [] cs = None"
| "find_first_not_of (c # s) cs =
     (if c \<notin> cs then Some 0 else map_option Suc (find_first_not_of s cs))"

text \<open>\<^verbatim>\<open>s.find_last_not_of(" \t\n\r")\<close>: the last such index.\<close>

fun find_last_not_of :: "string \<Rightarrow> char set \<Rightarrow> nat option" where
  "find_last_not_of [] cs = None"
| "find_last_not_of (c # s) cs =
     (case find_last_not_of s cs of
        Some e \<Rightarrow> Some (Suc e)
      | None \<Rightarrow> (if c \<notin> cs then Some 0 else None))"

text \<open>\<^verbatim>\<open>s.substr(pos, n)\<close> for \<open>pos \<le> size\<close> (the only way it is called here).\<close>

definition substr :: "string \<Rightarrow> nat \<Rightarrow> nat \<Rightarrow> string" where
  "substr s pos n = take n (drop pos s)"

definition trim :: "string \<Rightarrow> string" where
  "trim s =
     (case find_first_not_of s trim_chars of
        None \<Rightarrow> []
      | Some b \<Rightarrow>
          (case find_last_not_of s trim_chars of
             None \<Rightarrow> []
           | Some e \<Rightarrow> substr s b (e - b + 1)))"

definition is_valid_date :: "string \<Rightarrow> bool" where
  "is_valid_date d =
     (if length d \<noteq> 10 \<or> d ! 4 \<noteq> CHR ''-'' \<or> d ! 7 \<noteq> CHR ''-'' then False
      else list_all (\<lambda>i. i = 4 \<or> i = 7 \<or> isdigit (d ! i)) [0..<length d])"

definition prio_weight :: "char \<Rightarrow> int" where
  "prio_weight p =
     (if p = CHR ''H'' then 0
      else if p = CHR ''M'' then 1
      else if p = CHR ''L'' then 2
      else 1)"

section \<open>Storage\<close>

definition SEP :: char where "SEP = CHR ''|''"

text \<open>
  \<^verbatim>\<open>encode_field\<close>: every separator becomes a slash, then every newline and every
  carriage return is erased.
\<close>

definition encode_field :: "string \<Rightarrow> string" where
  "encode_field s =
     filter (\<lambda>c. c \<noteq> CR) (filter (\<lambda>c. c \<noteq> NL) (map (\<lambda>c. if c = SEP then CHR ''/'' else c) s))"

text \<open>
  \<^verbatim>\<open>while (std::getline(is, cur, delim)) parts.push_back(cur)\<close>. One call of
  \<^verbatim>\<open>getline\<close> extracts characters up to and including the delimiter (which it drops) or
  up to the end of the input; it fails, ending the loop, when it extracted nothing at all.
  \<open>cur\<close> is the field read so far. The same loop reads the lines of the data file
  (delimiter newline) and the fields of a line.
\<close>

fun getline_loop :: "char \<Rightarrow> string \<Rightarrow> string \<Rightarrow> string list" where
  "getline_loop delim cur [] = (if cur = [] then [] else [cur])"
| "getline_loop delim cur (c # s) =
     (if c = delim then cur # getline_loop delim [] s
      else getline_loop delim (cur @ [c]) s)"

definition split :: "string \<Rightarrow> char \<Rightarrow> string list" where
  "split line delim = getline_loop delim [] line"

subsection \<open>Integers as text\<close>

text \<open>
  \<^verbatim>\<open>std::stoi(s)\<close> is \<^verbatim>\<open>strtol\<close> in base 10 followed by a range check: leading white
  space is skipped, one sign is accepted, then the longest run of digits is converted and
  whatever follows it is ignored. No digit: \<^verbatim>\<open>std::invalid_argument\<close>. A value outside
  \<^verbatim>\<open>int\<close>: \<^verbatim>\<open>std::out_of_range\<close>.
\<close>

datatype exn = invalid_argument | out_of_range

definition digit_val :: "char \<Rightarrow> int" where
  "digit_val c = of_char c - 48"

definition digits_val :: "string \<Rightarrow> int" where
  "digits_val ds = foldl (\<lambda>a c. 10 * a + digit_val c) 0 ds"

definition INT_MAX :: int where "INT_MAX = 2147483647"
definition INT_MIN :: int where "INT_MIN = - 2147483648"

definition stoi :: "string \<Rightarrow> exn + 32 word" where
  "stoi s =
     (let s1 = dropWhile isspace s;
          neg = (s1 \<noteq> [] \<and> hd s1 = CHR ''-'');
          s2 = (if s1 \<noteq> [] \<and> (hd s1 = CHR ''-'' \<or> hd s1 = CHR ''+'') then tl s1 else s1);
          ds = takeWhile isdigit s2
      in if ds = [] then Inl invalid_argument
         else let n = (if neg then - digits_val ds else digits_val ds)
              in if n < INT_MIN \<or> INT_MAX < n then Inl out_of_range
                 else Inr (word_of_int n))"

text \<open>\<^verbatim>\<open>out << t.id\<close>: the decimal digits of an \<^verbatim>\<open>int\<close>, with a minus sign when negative.\<close>

function show_digits :: "int \<Rightarrow> string" where
  "show_digits n =
     (if n < 10 then [char_of (48 + n)]
      else show_digits (n div 10) @ [char_of (48 + n mod 10)])"
  by pat_completeness auto
termination
  by (relation "measure nat") auto

declare show_digits.simps [simp del]

definition show_int :: "int \<Rightarrow> string" where
  "show_int i = (if i < 0 then CHR ''-'' # show_digits (- i) else show_digits i)"

subsection \<open>Loading\<close>

text \<open>
  The body of the loop of \<^verbatim>\<open>load_tasks\<close> for one line: \<open>Inr None\<close> is
  \<^verbatim>\<open>continue\<close> (the line is skipped), \<open>Inr (Some t)\<close> is \<^verbatim>\<open>v.push_back(t)\<close>, and
  \<open>Inl e\<close> is the exception that \<^verbatim>\<open>std::stoi\<close> throws, which nothing catches.
\<close>

definition decode_line :: "string \<Rightarrow> exn + Task option" where
  "decode_line line =
     (if trim line = [] then Inr None
      else let parts = split line SEP
           in if length parts < 5 then Inr None
              else case stoi (parts ! 0) of
                     Inl e \<Rightarrow> Inl e
                   | Inr i \<Rightarrow>
                       Inr (Some \<lparr> t_id = i,
                                   t_done = (parts ! 1 = ''1''),
                                   t_priority = (if parts ! 2 = [] then CHR ''M'' else hd (parts ! 2)),
                                   t_due = (if parts ! 3 = ''-'' then None else Some (parts ! 3)),
                                   t_title = parts ! 4 \<rparr>))"

text \<open>The loop over the lines, \<open>v\<close> being the vector built so far.\<close>

fun load_loop :: "Task list \<Rightarrow> string list \<Rightarrow> exn + Task list" where
  "load_loop v [] = Inr v"
| "load_loop v (line # rest) =
     (case decode_line line of
        Inl e \<Rightarrow> Inl e
      | Inr None \<Rightarrow> load_loop v rest
      | Inr (Some t) \<Rightarrow> load_loop (v @ [t]) rest)"

text \<open>
  The data file is \<open>None\<close> when it does not exist (\<^verbatim>\<open>if (!in) return v\<close>) and
  \<open>Some content\<close> otherwise.
\<close>

definition load_tasks :: "string option \<Rightarrow> exn + Task list" where
  "load_tasks file =
     (case file of
        None \<Rightarrow> Inr []
      | Some content \<Rightarrow> load_loop [] (getline_loop NL [] content))"

subsection \<open>Saving\<close>

definition encode_line :: "Task \<Rightarrow> string" where
  "encode_line t =
     show_int (sint (t_id t)) @ [SEP]
     @ [if t_done t then CHR ''1'' else CHR ''0''] @ [SEP]
     @ [t_priority t] @ [SEP]
     @ (case t_due t of Some d \<Rightarrow> d | None \<Rightarrow> ''-'') @ [SEP]
     @ encode_field (t_title t)"

text \<open>The file is truncated and rewritten: one encoded line and a newline per task.\<close>

definition save_tasks :: "Task list \<Rightarrow> string" where
  "save_tasks v = concat (map (\<lambda>t. encode_line t @ [NL]) v)"

text \<open>
  \<^verbatim>\<open>int m = 0; for (t : v) m = std::max(m, t.id); return m + 1;\<close> The comparison of
  \<^verbatim>\<open>std::max\<close> is signed. The addition is that of the 32-bit word: it wraps at
  \<^verbatim>\<open>INT_MAX\<close>, where the C++ addition overflows.
\<close>

definition max_int :: "32 word \<Rightarrow> 32 word \<Rightarrow> 32 word" where
  "max_int a b = (if a <s b then b else a)"

definition next_id :: "Task list \<Rightarrow> 32 word" where
  "next_id v = foldl (\<lambda>m t. max_int m (t_id t)) 0 v + 1"

section \<open>Printing and listing\<close>

text \<open>\<^verbatim>\<open>std::setw(3)\<close> pads the next item on the left with spaces up to three characters.\<close>

definition setw :: "nat \<Rightarrow> string \<Rightarrow> string" where
  "setw n s = replicate (n - length s) CHR '' '' @ s"

definition print_task :: "Task \<Rightarrow> string" where
  "print_task t =
     setw 3 (show_int (sint (t_id t))) @ ''  ''
     @ (if t_done t then ''[x]'' else ''[ ]'') @ ''  ''
     @ [t_priority t] @ ''  ''
     @ (case t_due t of Some d \<Rightarrow> d | None \<Rightarrow> ''--'') @ ''  ''
     @ t_title t @ [NL]"

datatype ListFilter = All | Pending | Done

text \<open>\<^verbatim>\<open>a.due.value_or("9999-99-99")\<close>\<close>

definition due_or_sentinel :: "Task \<Rightarrow> string" where
  "due_or_sentinel a = (case t_due a of Some d \<Rightarrow> d | None \<Rightarrow> ''9999-99-99'')"

text \<open>
  The part of the comparator that depends on the sort key: \<open>Some r\<close> when it returns
  \<open>r\<close>, \<open>None\<close> when control falls through to the fixed tie-break.
\<close>

definition key_step :: "string \<Rightarrow> Task \<Rightarrow> Task \<Rightarrow> bool option" where
  "key_step skey a b =
     (if skey = ''due'' then
        (let ad = due_or_sentinel a; bd = due_or_sentinel b
         in if ad \<noteq> bd then Some (ad < bd) else None)
      else if skey = ''priority'' then
        (let aw = prio_weight (t_priority a); bw = prio_weight (t_priority b)
         in if aw \<noteq> bw then Some (aw < bw) else None)
      else if skey = ''id'' then
        (if t_id a \<noteq> t_id b then Some (t_id a <s t_id b) else None)
      else None)"

text \<open>The lambda handed to \<^verbatim>\<open>std::stable_sort\<close> in \<^verbatim>\<open>list_cmd\<close>.\<close>

definition task_less :: "string \<Rightarrow> Task \<Rightarrow> Task \<Rightarrow> bool" where
  "task_less skey a b =
     (if t_done a \<noteq> t_done b then \<not> t_done a
      else case key_step skey a b of
             Some r \<Rightarrow> r
           | None \<Rightarrow>
               (let ad = due_or_sentinel a; bd = due_or_sentinel b
                in if ad \<noteq> bd then ad < bd
                   else let aw = prio_weight (t_priority a); bw = prio_weight (t_priority b)
                        in if aw \<noteq> bw then aw < bw
                           else t_id a <s t_id b))"

text \<open>
  \<^verbatim>\<open>std::stable_sort(first, last, lt)\<close> is a library routine, specified by its result:
  the range sorted by \<open>lt\<close>, elements that \<open>lt\<close> does not separate keeping
  their order. It is modelled by stable insertion: an element goes in front of the first
  one that is not less than it.
\<close>

fun stable_insert :: "('a \<Rightarrow> 'a \<Rightarrow> bool) \<Rightarrow> 'a \<Rightarrow> 'a list \<Rightarrow> 'a list" where
  "stable_insert lt x [] = [x]"
| "stable_insert lt x (y # ys) =
     (if lt y x then y # stable_insert lt x ys else x # y # ys)"

fun stable_sort :: "('a \<Rightarrow> 'a \<Rightarrow> bool) \<Rightarrow> 'a list \<Rightarrow> 'a list" where
  "stable_sort lt [] = []"
| "stable_sort lt (x # xs) = stable_insert lt x (stable_sort lt xs)"

text \<open>The printing loop of \<^verbatim>\<open>list_cmd\<close>: the tasks that reach \<^verbatim>\<open>print_task\<close>.\<close>

fun list_rows :: "ListFilter \<Rightarrow> Task list \<Rightarrow> Task list" where
  "list_rows f [] = []"
| "list_rows f (t # ts) =
     (if f = Pending \<and> t_done t then list_rows f ts
      else if f = Done \<and> \<not> t_done t then list_rows f ts
      else t # list_rows f ts)"

text \<open>\<^verbatim>\<open>list_cmd\<close>: what is written to the standard output, or the uncaught exception.\<close>

definition list_cmd :: "ListFilter \<Rightarrow> string \<Rightarrow> string option \<Rightarrow> exn + string" where
  "list_cmd f skey file =
     (case load_tasks file of
        Inl e \<Rightarrow> Inl e
      | Inr v \<Rightarrow> Inr (concat (map print_task (list_rows f (stable_sort (task_less skey) v)))))"

section \<open>The command dispatcher\<close>

text \<open>
  One run of the program: the exit status, the data file afterwards, and what was written
  to the two streams. A run that ends in an uncaught exception is \<open>Inl\<close>; it happens
  only inside \<^verbatim>\<open>load_tasks\<close>, before the file is written.
\<close>

record Outcome =
  exit_code :: int
  data_file :: "string option"
  cout :: string
  cerr :: string

definition help_text :: string where
  "help_text =
     ''Task Tracker (tt)'' @ [NL, NL]
     @ ''Usage:'' @ [NL]
     @ ''  tt add <title words...> [-p H|M|L] [-d YYYY-MM-DD]'' @ [NL]
     @ ''  tt list [--all|--pending|--done] [--sort=due|priority|id]'' @ [NL]
     @ ''  tt done <id>'' @ [NL]
     @ ''  tt rm <id>'' @ [NL]
     @ ''  tt clear [--done|--all]'' @ [NL]
     @ ''  tt help'' @ [NL, NL]
     @ ''Notes:'' @ [NL]
     @ ''  - Default '' @ [CHR 0x27] @ ''tt list'' @ [CHR 0x27]
     @ '' now shows ALL tasks. Completed ones display as [x].'' @ [NL]
     @ ''  - Use --pending to show only pending, or --done to show only completed.'' @ [NL, NL]
     @ ''Data file: tasks.tsv (in current directory)'' @ [NL]"

definition succeed :: "string option \<Rightarrow> string \<Rightarrow> exn + Outcome" where
  "succeed file msg = Inr \<lparr> exit_code = 0, data_file = file, cout = msg, cerr = [] \<rparr>"

definition fail :: "string option \<Rightarrow> string \<Rightarrow> exn + Outcome" where
  "fail file msg = Inr \<lparr> exit_code = 1, data_file = file, cout = [], cerr = msg \<rparr>"

definition parse_int :: "string \<Rightarrow> 32 word" where
  "parse_int s = (case stoi s of Inl e \<Rightarrow> - 1 | Inr i \<Rightarrow> i)"

subsection \<open>add\<close>

text \<open>\<^verbatim>\<open>argv[i][0]\<close>: the first byte of a C string, the terminating zero when it is empty.\<close>

definition first_byte :: "string \<Rightarrow> char" where
  "first_byte s = (case s of [] \<Rightarrow> NUL | c # cs \<Rightarrow> c)"

text \<open>
  The argument loop of \<^verbatim>\<open>add\<close> over \<^verbatim>\<open>argv[i..]\<close>; \<open>rest \<noteq> []\<close> is
  \<^verbatim>\<open>i + 1 < argc\<close>. \<open>Inl msg\<close> is \<^verbatim>\<open>std::cerr << msg; return 1\<close>.
\<close>

function add_args ::
  "string list \<Rightarrow> char \<Rightarrow> string option \<Rightarrow> string list
    \<Rightarrow> string + (char \<times> string option \<times> string list)" where
  "add_args [] pr due title_parts = Inr (pr, due, title_parts)"
| "add_args (a # rest) pr due title_parts =
     (if a = ''-p'' \<and> rest \<noteq> [] then
        (let pr' = toupper (first_byte (hd rest))
         in if pr' \<noteq> CHR ''H'' \<and> pr' \<noteq> CHR ''M'' \<and> pr' \<noteq> CHR ''L''
            then Inl (''Invalid priority. Use H/M/L.'' @ [NL])
            else add_args (tl rest) pr' due title_parts)
      else if a = ''-d'' \<and> rest \<noteq> [] then
        (let d = hd rest
         in if \<not> is_valid_date d
            then Inl (''Invalid date, expected YYYY-MM-DD.'' @ [NL])
            else add_args (tl rest) pr (Some d) title_parts)
      else if a \<noteq> [] \<and> hd a = CHR ''-'' then Inl (''Unknown flag: '' @ a @ [NL])
      else add_args rest pr due (title_parts @ [a]))"
  by pat_completeness auto
termination
  by (relation "measure (\<lambda>(args, pr, due, title_parts). length args)") auto

text \<open>\<^verbatim>\<open>for (i ...) { if (i) title += ' '; title += title_parts[i]; }\<close>\<close>

definition join_title :: "string list \<Rightarrow> string" where
  "join_title title_parts =
     foldl (\<lambda>title (i, p). (if i \<noteq> 0 then title @ '' '' else title) @ p) []
       (enumerate 0 title_parts)"

definition add_cmd :: "string list \<Rightarrow> string option \<Rightarrow> exn + Outcome" where
  "add_cmd args file =
     (if args = [] then fail file (''Error: title required.'' @ [NL])
      else case add_args args CHR ''M'' None [] of
             Inl msg \<Rightarrow> fail file msg
           | Inr (pr, due, title_parts) \<Rightarrow>
               if title_parts = [] then fail file (''Error: title required.'' @ [NL])
               else (case load_tasks file of
                       Inl e \<Rightarrow> Inl e
                     | Inr v \<Rightarrow>
                         (let t = \<lparr> t_id = next_id v, t_done = False, t_priority = pr,
                                    t_due = due, t_title = trim (join_title title_parts) \<rparr>;
                              v' = v @ [t]
                          in succeed (Some (save_tasks v'))
                               (''Added task #'' @ show_int (sint (t_id (last v'))) @ [NL]))))"

subsection \<open>list\<close>

fun list_args :: "string list \<Rightarrow> ListFilter \<Rightarrow> string \<Rightarrow> string + (ListFilter \<times> string)" where
  "list_args [] f skey = Inr (f, skey)"
| "list_args (a # rest) f skey =
     (if a = ''--all'' then list_args rest All skey
      else if a = ''--pending'' then list_args rest Pending skey
      else if a = ''--done'' then list_args rest Done skey
      else if take 7 a = ''--sort='' then list_args rest f (drop 7 a)
      else Inl (''Unknown arg: '' @ a @ [NL]))"

definition list_main :: "string list \<Rightarrow> string option \<Rightarrow> exn + Outcome" where
  "list_main args file =
     (case list_args args All ''due'' of
        Inl msg \<Rightarrow> fail file msg
      | Inr (f, skey) \<Rightarrow>
          (case list_cmd f skey file of
             Inl e \<Rightarrow> Inl e
           | Inr text \<Rightarrow> succeed file text))"

subsection \<open>done, rm, clear\<close>

text \<open>
  \<^verbatim>\<open>for (auto& t : v) if (t.id == id) { t.done = true; found = true; break; }\<close>:
  the vector afterwards and \<open>found\<close>.
\<close>

fun mark_done :: "32 word \<Rightarrow> Task list \<Rightarrow> Task list \<times> bool" where
  "mark_done i [] = ([], False)"
| "mark_done i (t # ts) =
     (if t_id t = i then (t\<lparr> t_done := True \<rparr> # ts, True)
      else (case mark_done i ts of (ts', found) \<Rightarrow> (t # ts', found)))"

definition done_cmd :: "string list \<Rightarrow> string option \<Rightarrow> exn + Outcome" where
  "done_cmd args file =
     (if args = [] then fail file (''Usage: tt done <id>'' @ [NL])
      else let i = parse_int (hd args)
           in if i <s 0 then fail file (''Invalid id.'' @ [NL])
              else case load_tasks file of
                     Inl e \<Rightarrow> Inl e
                   | Inr v \<Rightarrow>
                       (case mark_done i v of (v', found) \<Rightarrow>
                          if \<not> found then fail file (''Task not found.'' @ [NL])
                          else succeed (Some (save_tasks v'))
                                 (''Marked #'' @ show_int (sint i) @ '' done.'' @ [NL])))"

text \<open>
  \<^verbatim>\<open>std::remove_if\<close> returns \<^verbatim>\<open>v.end()\<close> exactly when no task has the id; the erase
  then leaves the tasks with another id, in order.
\<close>

definition rm_cmd :: "string list \<Rightarrow> string option \<Rightarrow> exn + Outcome" where
  "rm_cmd args file =
     (if args = [] then fail file (''Usage: tt rm <id>'' @ [NL])
      else let i = parse_int (hd args)
           in if i <s 0 then fail file (''Invalid id.'' @ [NL])
              else case load_tasks file of
                     Inl e \<Rightarrow> Inl e
                   | Inr v \<Rightarrow>
                       if \<not> list_ex (\<lambda>t. t_id t = i) v then fail file (''Task not found.'' @ [NL])
                       else succeed (Some (save_tasks (filter (\<lambda>t. t_id t \<noteq> i) v)))
                              (''Removed #'' @ show_int (sint i) @ ''.'' @ [NL]))"

fun clear_args :: "string list \<Rightarrow> bool \<Rightarrow> string + bool" where
  "clear_args [] clear_all = Inr clear_all"
| "clear_args (a # rest) clear_all =
     (if a = ''--all'' then clear_args rest True
      else if a = ''--done'' then clear_args rest clear_all
      else Inl (''Unknown arg: '' @ a @ [NL]))"

definition clear_cmd :: "string list \<Rightarrow> string option \<Rightarrow> exn + Outcome" where
  "clear_cmd args file =
     (case clear_args args False of
        Inl msg \<Rightarrow> fail file msg
      | Inr clear_all \<Rightarrow>
          (case load_tasks file of
             Inl e \<Rightarrow> Inl e
           | Inr v \<Rightarrow>
               succeed (Some (save_tasks (if clear_all then [] else filter (\<lambda>t. \<not> t_done t) v)))
                 ((if clear_all then ''Cleared all tasks.'' else ''Cleared completed tasks.'') @ [NL])))"

subsection \<open>main\<close>

text \<open>
  \<open>args\<close> is \<^verbatim>\<open>argv[1..argc-1]\<close>; each command gets \<^verbatim>\<open>argv[2..]\<close>, so that
  \<^verbatim>\<open>argc < 3\<close> is the emptiness of what it gets.
\<close>

definition main :: "string list \<Rightarrow> string option \<Rightarrow> exn + Outcome" where
  "main args file =
     (case args of
        [] \<Rightarrow> succeed file help_text
      | cmd # rest \<Rightarrow>
          if cmd = ''help'' \<or> cmd = ''-h'' \<or> cmd = ''--help'' then succeed file help_text
          else if cmd = ''add'' then add_cmd rest file
          else if cmd = ''list'' then list_main rest file
          else if cmd = ''done'' then done_cmd rest file
          else if cmd = ''rm'' then rm_cmd rest file
          else if cmd = ''clear'' then clear_cmd rest file
          else fail file (''Unknown command. Try '' @ [CHR 0x27] @ ''tt help'' @ [CHR 0x27] @ ''.'' @ [NL]))"

section \<open>The listing order and the skipped lines, in the words of the specification\<close>

text \<open>
  The order of the listing as the specification words it, with its own constants: the
  weights are 0 for H, 1 for M and 2 for L, and an absent due date counts as the text
  \<^verbatim>\<open>9999-99-99\<close>. The specification names no weight for a priority that is none of
  the three, which only a hand-edited file can hold; it weighs as M.
\<close>

definition spec_weight :: "char \<Rightarrow> int" where
  "spec_weight p = (if p = CHR ''H'' then 0 else if p = CHR ''L'' then 2 else 1)"

definition spec_due :: "Task \<Rightarrow> string" where
  "spec_due t = (case t_due t of None \<Rightarrow> ''9999-99-99'' | Some d \<Rightarrow> d)"

text \<open>
  Incomplete tasks before completed ones; then the requested key (due date, priority
  weight, or id; nothing for any other key); then due date, priority weight and id. It
  is the lexicographic order of this tuple.
\<close>

definition spec_requested_key :: "string \<Rightarrow> Task \<Rightarrow> string \<times> int \<times> int" where
  "spec_requested_key skey t =
     (if skey = ''due'' then (spec_due t, 0, 0)
      else if skey = ''priority'' then ([], spec_weight (t_priority t), 0)
      else if skey = ''id'' then ([], 0, sint (t_id t))
      else ([], 0, 0))"

definition spec_order_key ::
  "string \<Rightarrow> Task \<Rightarrow> bool \<times> (string \<times> int \<times> int) \<times> string \<times> int \<times> int" where
  "spec_order_key skey t =
     (t_done t, spec_requested_key skey t, spec_due t, spec_weight (t_priority t),
      sint (t_id t))"

text \<open>The filters: every task, the pending ones, the completed ones.\<close>

definition spec_matches :: "ListFilter \<Rightarrow> Task \<Rightarrow> bool" where
  "spec_matches f t = (case f of All \<Rightarrow> True | Pending \<Rightarrow> \<not> t_done t | Done \<Rightarrow> t_done t)"

text \<open>Sort the whole collection stably by the tuple, then filter.\<close>

definition spec_list :: "ListFilter \<Rightarrow> string \<Rightarrow> Task list \<Rightarrow> Task list" where
  "spec_list f skey v = filter (spec_matches f) (sort_key (spec_order_key skey) v)"

text \<open>The lines that loading skips: blank ones and those with fewer than five fields.\<close>

definition skipped_line :: "string \<Rightarrow> bool" where
  "skipped_line l = (trim l = [] \<or> length (split l SEP) < 5)"

text \<open>
  The representation invariant of a task (\<^verbatim>\<open>'|' not allowed\<close>, no newlines): the
  priority is neither the separator nor a newline, and a due date holds neither and is
  not the text \<^verbatim>\<open>-\<close> that stands for its absence. Every task that \<^verbatim>\<open>add\<close> or
  \<^verbatim>\<open>load_tasks\<close> builds satisfies it.
\<close>

definition field_safe :: "Task \<Rightarrow> bool" where
  "field_safe t =
     (t_priority t \<noteq> SEP \<and> t_priority t \<noteq> NL
      \<and> (case t_due t of
            None \<Rightarrow> True
          | Some d \<Rightarrow> SEP \<notin> set d \<and> NL \<notin> set d \<and> d \<noteq> ''-''))"

text \<open>
  A task as it comes back from the file: the title is the encoded one, nothing else
  changes.
\<close>

definition stored :: "Task \<Rightarrow> Task" where
  "stored t = t\<lparr> t_title := encode_field (t_title t) \<rparr>"

text \<open>
  The test of \<^verbatim>\<open>add\<close> on the value of \<^verbatim>\<open>-p\<close>: its first byte, in upper case, is
  one of H, M, L.
\<close>

definition priority_ok :: "string \<Rightarrow> bool" where
  "priority_ok v = (toupper (first_byte v) \<in> {CHR ''H'', CHR ''M'', CHR ''L''})"

text \<open>
  In the words of the specification: a value that, in upper case, is one of the strings
  H, M, L; and an argument that is a non-negative integer, a non-empty run of digits.
\<close>

definition spec_priority_value :: "string \<Rightarrow> bool" where
  "spec_priority_value v = (map toupper v \<in> {''H'', ''M'', ''L''})"

definition spec_nonneg_integer :: "string \<Rightarrow> bool" where
  "spec_nonneg_integer s = (s \<noteq> [] \<and> list_all isdigit s)"

section \<open>Identifier allocation\<close>

lemma sint_max_int: "sint (max_int a b) = max (sint a) (sint b)"
  by (auto simp: max_int_def word_sless_alt)

lemma Max_insert_max:
  "finite S \<Longrightarrow> Max (insert (max a b) S) = max (a::int) (Max (insert b S))"
  by (cases "S = {}") (simp_all add: max.assoc)

lemma sint_fold_max:
  "sint (foldl (\<lambda>m t. max_int m (t_id t)) m0 v) = Max (insert (sint m0) (sint ` t_id ` set v))"
proof (induction v arbitrary: m0)
  case Nil
  show ?case by simp
next
  case (Cons t ts)
  then show ?case by (simp add: sint_max_int Max_insert_max)
qed

lemma sint_plus_one:
  assumes "sint (x :: 32 word) < 2147483647"
  shows "sint (x + 1) = sint x + 1"
proof -
  have "- 2147483648 \<le> sint x"
    using sint_ge [of x] by simp
  then show ?thesis
    using assms by (simp add: sint_word_ariths signed_take_bit_int_eq_self)
qed

text \<open>
  Claim C7, as amended. \<^verbatim>\<open>next_id\<close> starts its running maximum at 0, so it returns one
  more than the largest of 0 and the ids present: 1 for the empty collection, 1 when no
  id is positive, and the maximum id plus one as soon as one id is positive. This holds
  as long as that maximum is below \<^verbatim>\<open>INT_MAX\<close>, where \<^verbatim>\<open>m + 1\<close> still fits an
  \<^verbatim>\<open>int\<close>.
\<close>

theorem next_id_value:
  "Max (insert 0 (sint ` t_id ` set v)) < INT_MAX \<Longrightarrow>
     sint (next_id v) = Max (insert 0 (sint ` t_id ` set v)) + 1"
  using sint_fold_max [of 0 v] sint_plus_one [of "foldl (\<lambda>m t. max_int m (t_id t)) 0 v"]
  by (simp add: next_id_def INT_MAX_def)

text \<open>The ids 1, 3, 5 give 6, and the empty collection gives 1.\<close>

theorem next_id_value_witness:
  "Max (insert 0 (sint ` t_id ` set
      (map (\<lambda>i. \<lparr>t_id = i, t_done = False, t_priority = CHR ''M'', t_due = None, t_title = ''x''\<rparr>)
         [1, 3, 5]))) < INT_MAX
   \<and> sint (next_id
      (map (\<lambda>i. \<lparr>t_id = i, t_done = False, t_priority = CHR ''M'', t_due = None, t_title = ''x''\<rparr>)
         [1, 3, 5])) = 6
   \<and> sint (next_id []) = 1"
  using
    next_id_value [of "map (\<lambda>i. \<lparr>t_id = i, t_done = False, t_priority = CHR ''M'',
      t_due = None, t_title = ''x''\<rparr>) [1, 3, 5]"]
    next_id_value [of "[]"]
  by (simp add: INT_MAX_def)

text \<open>
  Claim C7 as stated fails on a collection whose only id is negative (a data file holding
  the line \<^verbatim>\<open>-5|0|M|-|x\<close> loads as such): the result is 1, not \<open>-5 + 1\<close>. It also
  fails at the id \<^verbatim>\<open>INT_MAX\<close>, where one more does not fit an \<^verbatim>\<open>int\<close>.
\<close>

theorem next_id_counterexample:
  "sint (next_id [\<lparr>t_id = - 5, t_done = False, t_priority = CHR ''M'', t_due = None, t_title = ''x''\<rparr>])
     \<noteq> Max (sint ` t_id ` set
           [\<lparr>t_id = - 5, t_done = False, t_priority = CHR ''M'', t_due = None, t_title = ''x''\<rparr>]) + 1
   \<and> sint (next_id [\<lparr>t_id = 2147483647, t_done = False, t_priority = CHR ''M'', t_due = None, t_title = ''x''\<rparr>])
     \<noteq> Max (sint ` t_id ` set
           [\<lparr>t_id = 2147483647, t_done = False, t_priority = CHR ''M'', t_due = None, t_title = ''x''\<rparr>]) + 1"
  by (simp add: next_id_def max_int_def word_sless_alt)

section \<open>Failed commands\<close>

text \<open>
  Claim C6. Whatever the arguments and the data file, a run that exits with status 1
  leaves the data file as it was: every \<^verbatim>\<open>return 1\<close> of \<^verbatim>\<open>main\<close> comes before the
  call of \<^verbatim>\<open>save_tasks\<close> of its command.
\<close>

theorem main_failure_keeps_file:
  "main args file = Inr r \<Longrightarrow> exit_code r = 1 \<Longrightarrow> data_file r = file"
  by (auto simp: main_def add_cmd_def list_main_def done_cmd_def rm_cmd_def clear_cmd_def
      fail_def succeed_def Let_def split: list.splits sum.splits prod.splits if_splits)

text \<open>
  \<^verbatim>\<open>rm 999\<close> on a store without id 999 fails with status 1 and the file is the same.
\<close>

theorem main_failure_keeps_file_witness:
  "main [''rm'', ''999''] (Some (''1|1|M|2024-01-01|a'' @ [NL]))
     = Inr \<lparr> exit_code = 1, data_file = Some (''1|1|M|2024-01-01|a'' @ [NL]),
             cout = [], cerr = ''Task not found.'' @ [NL] \<rparr>
   \<and> data_file \<lparr> exit_code = 1, data_file = Some (''1|1|M|2024-01-01|a'' @ [NL]),
             cout = [], cerr = ''Task not found.'' @ [NL] \<rparr>
     = Some (''1|1|M|2024-01-01|a'' @ [NL])"
proof -
  have run: "main [''rm'', ''999''] (Some (''1|1|M|2024-01-01|a'' @ [NL]))
     = Inr \<lparr> exit_code = 1, data_file = Some (''1|1|M|2024-01-01|a'' @ [NL]),
             cout = [], cerr = ''Task not found.'' @ [NL] \<rparr>"
    by code_simp
  have status: "exit_code \<lparr> exit_code = 1, data_file = Some (''1|1|M|2024-01-01|a'' @ [NL]),
             cout = [], cerr = ''Task not found.'' @ [NL] \<rparr> = 1"
    by simp
  from main_failure_keeps_file [OF run status] run show ?thesis
    by simp
qed

section \<open>The listing\<close>

lemma sint_eq_iff32: "(a :: 32 word) = b \<longleftrightarrow> sint a = sint b"
  by (auto intro: signed_word_eqI)

text \<open>
  The weights and the sentinel of the code are those of the specification: H is 0, M is
  1, L is 2, and an absent due date compares as \<^verbatim>\<open>9999-99-99\<close>.
\<close>

lemma prio_weight_spec: "prio_weight p = spec_weight p"
  by (simp add: prio_weight_def spec_weight_def)

lemma prio_weight_values:
  "prio_weight CHR ''H'' = 0" "prio_weight CHR ''M'' = 1" "prio_weight CHR ''L'' = 2"
  by (simp_all add: prio_weight_def)

lemma due_or_sentinel_spec: "due_or_sentinel t = spec_due t"
  by (simp add: due_or_sentinel_def spec_due_def split: option.splits)

lemma due_or_sentinel_values:
  "due_or_sentinel (t\<lparr> t_due := None \<rparr>) = ''9999-99-99''"
  "due_or_sentinel (t\<lparr> t_due := Some d \<rparr>) = d"
  by (simp_all add: due_or_sentinel_def)

text \<open>The comparator of \<^verbatim>\<open>list_cmd\<close> is the strict lexicographic order of the tuple.\<close>

lemma task_less_order_key:
  "task_less skey a b \<longleftrightarrow> spec_order_key skey a < spec_order_key skey b"
  unfolding task_less_def key_step_def spec_order_key_def spec_requested_key_def Let_def
    prio_weight_spec due_or_sentinel_spec
  by (auto simp: word_sless_alt sint_eq_iff32 less_le split: option.splits if_splits)

lemma stable_insert_insort_key:
  assumes "\<And>a b. lt a b \<longleftrightarrow> k a < k b"
  shows "stable_insert lt x ys = insort_key k x ys"
  by (induction ys) (auto simp: assms)

lemma stable_sort_sort_key:
  assumes "\<And>a b. lt a b \<longleftrightarrow> k a < (k b :: 'k :: linorder)"
  shows "stable_sort lt xs = sort_key k xs"
  by (induction xs) (simp_all add: stable_insert_insort_key [of lt k, OF assms])

lemma stable_sort_task_less:
  "stable_sort (task_less skey) v = sort_key (spec_order_key skey) v"
  by (rule stable_sort_sort_key) (rule task_less_order_key)

lemma list_rows_filter: "list_rows f ts = filter (spec_matches f) ts"
  by (induction ts) (auto simp: spec_matches_def split: ListFilter.splits)

lemma sorted_by_task_less:
  "sorted_wrt (\<lambda>a b. \<not> task_less skey b a) (sort_key (spec_order_key skey) v)"
proof -
  have "sorted (map (spec_order_key skey) (sort_key (spec_order_key skey) v))"
    by (rule sorted_sort_key)
  then show ?thesis
    by (simp add: sorted_map task_less_order_key not_less)
qed

text \<open>
  Claim C1. For every data file that loads, \<^verbatim>\<open>list\<close> prints exactly the rows of
  \<^const>\<open>spec_list\<close>: the whole collection sorted stably by the tuple of the
  specification (incomplete first; then the requested key; then due date with
  \<^verbatim>\<open>9999-99-99\<close> for an absent one, weight 0 for H, 1 for M and 2 for L, and id),
  then filtered. The sorted collection is a rearrangement of the loaded one, no row in it
  is preceded by one that the comparator of the code puts after it, rows with the same
  tuple keep their order, and filtering before sorting would give the same rows, so the
  filter never changes the order of the rows it keeps. The comparator of the code is the
  strict order of that tuple, and its weights and sentinel are the ones named.
\<close>

theorem list_cmd_sorts_then_filters:
  "list_cmd f skey file =
     (case load_tasks file of
        Inl e \<Rightarrow> Inl e
      | Inr v \<Rightarrow> Inr (concat (map print_task (spec_list f skey v))))
   \<and> mset (sort_key (spec_order_key skey) v) = mset v
   \<and> sorted_wrt (\<lambda>a b. \<not> task_less skey b a) (sort_key (spec_order_key skey) v)
   \<and> filter (\<lambda>t. spec_order_key skey t = k) (sort_key (spec_order_key skey) v)
       = filter (\<lambda>t. spec_order_key skey t = k) v
   \<and> spec_list f skey v = sort_key (spec_order_key skey) (filter (spec_matches f) v)
   \<and> (task_less skey a b \<longleftrightarrow> spec_order_key skey a < spec_order_key skey b)
   \<and> prio_weight CHR ''H'' = 0 \<and> prio_weight CHR ''M'' = 1 \<and> prio_weight CHR ''L'' = 2
   \<and> due_or_sentinel (t\<lparr> t_due := None \<rparr>) = ''9999-99-99''
   \<and> due_or_sentinel (t\<lparr> t_due := Some d \<rparr>) = d"
  using task_less_order_key [of skey a b]
  by (simp add: list_cmd_def spec_list_def list_rows_filter stable_sort_task_less
      sorted_by_task_less sort_key_stable filter_sort prio_weight_values
      due_or_sentinel_values split: sum.splits)

text \<open>
  Three listings. Priorities L, H, M and a completed H, sorted by priority: H, M, L,
  then the completed task. A task without a due date and one due 5000-01-01, sorted by
  due date: the dated one first. And the example of the specification: due dates
  2024-01-01 (done), 2024-01-02 (pending) and a pending task without a due date;
  \<^verbatim>\<open>list --pending --sort=due\<close> prints the dated pending task before the one without a
  date.
\<close>

theorem list_cmd_sorts_then_filters_witness:
  "list_cmd All ''priority''
     (Some (''1|0|L|-|a'' @ [NL] @ ''2|0|H|-|b'' @ [NL] @ ''3|0|M|-|c'' @ [NL] @ ''4|1|H|-|d'' @ [NL]))
     = Inr (''  2  [ ]  H  --  b'' @ [NL] @ ''  3  [ ]  M  --  c'' @ [NL]
            @ ''  1  [ ]  L  --  a'' @ [NL] @ ''  4  [x]  H  --  d'' @ [NL])
   \<and> (case load_tasks
        (Some (''1|0|L|-|a'' @ [NL] @ ''2|0|H|-|b'' @ [NL] @ ''3|0|M|-|c'' @ [NL] @ ''4|1|H|-|d'' @ [NL])) of
        Inl e \<Rightarrow> Inl e
      | Inr v \<Rightarrow> Inr (concat (map print_task (spec_list All ''priority'' v))))
     = Inr (''  2  [ ]  H  --  b'' @ [NL] @ ''  3  [ ]  M  --  c'' @ [NL]
            @ ''  1  [ ]  L  --  a'' @ [NL] @ ''  4  [x]  H  --  d'' @ [NL])
   \<and> list_cmd All ''due''
     (Some (''1|0|M|-|a'' @ [NL] @ ''2|0|M|5000-01-01|b'' @ [NL]))
     = Inr (''  2  [ ]  M  5000-01-01  b'' @ [NL] @ ''  1  [ ]  M  --  a'' @ [NL])
   \<and> (case load_tasks (Some (''1|0|M|-|a'' @ [NL] @ ''2|0|M|5000-01-01|b'' @ [NL])) of
        Inl e \<Rightarrow> Inl e
      | Inr v \<Rightarrow> Inr (concat (map print_task (spec_list All ''due'' v))))
     = Inr (''  2  [ ]  M  5000-01-01  b'' @ [NL] @ ''  1  [ ]  M  --  a'' @ [NL])
   \<and> list_cmd Pending ''due''
     (Some (''1|1|M|2024-01-01|a'' @ [NL] @ ''2|0|M|-|c'' @ [NL] @ ''3|0|M|2024-01-02|b'' @ [NL]))
     = Inr (''  3  [ ]  M  2024-01-02  b'' @ [NL] @ ''  2  [ ]  M  --  c'' @ [NL])
   \<and> (case load_tasks
        (Some (''1|1|M|2024-01-01|a'' @ [NL] @ ''2|0|M|-|c'' @ [NL] @ ''3|0|M|2024-01-02|b'' @ [NL])) of
        Inl e \<Rightarrow> Inl e
      | Inr v \<Rightarrow> Inr (concat (map print_task (spec_list Pending ''due'' v))))
     = Inr (''  3  [ ]  M  2024-01-02  b'' @ [NL] @ ''  2  [ ]  M  --  c'' @ [NL])"
proof -
  let ?F1 = "Some (''1|0|L|-|a'' @ [NL] @ ''2|0|H|-|b'' @ [NL] @ ''3|0|M|-|c'' @ [NL] @ ''4|1|H|-|d'' @ [NL])"
  let ?F2 = "Some (''1|0|M|-|a'' @ [NL] @ ''2|0|M|5000-01-01|b'' @ [NL])"
  let ?F3 = "Some (''1|1|M|2024-01-01|a'' @ [NL] @ ''2|0|M|-|c'' @ [NL] @ ''3|0|M|2024-01-02|b'' @ [NL])"
  have run1: "list_cmd All ''priority'' ?F1
     = Inr (''  2  [ ]  H  --  b'' @ [NL] @ ''  3  [ ]  M  --  c'' @ [NL]
            @ ''  1  [ ]  L  --  a'' @ [NL] @ ''  4  [x]  H  --  d'' @ [NL])"
    by code_simp
  have run2: "list_cmd All ''due'' ?F2
     = Inr (''  2  [ ]  M  5000-01-01  b'' @ [NL] @ ''  1  [ ]  M  --  a'' @ [NL])"
    by code_simp
  have run3: "list_cmd Pending ''due'' ?F3
     = Inr (''  3  [ ]  M  2024-01-02  b'' @ [NL] @ ''  2  [ ]  M  --  c'' @ [NL])"
    by code_simp
  have eq1: "list_cmd All ''priority'' ?F1
     = (case load_tasks ?F1 of Inl e \<Rightarrow> Inl e
        | Inr v \<Rightarrow> Inr (concat (map print_task (spec_list All ''priority'' v))))"
    using list_cmd_sorts_then_filters [of All "''priority''" ?F1] by (rule conjunct1)
  have eq2: "list_cmd All ''due'' ?F2
     = (case load_tasks ?F2 of Inl e \<Rightarrow> Inl e
        | Inr v \<Rightarrow> Inr (concat (map print_task (spec_list All ''due'' v))))"
    using list_cmd_sorts_then_filters [of All "''due''" ?F2] by (rule conjunct1)
  have eq3: "list_cmd Pending ''due'' ?F3
     = (case load_tasks ?F3 of Inl e \<Rightarrow> Inl e
        | Inr v \<Rightarrow> Inr (concat (map print_task (spec_list Pending ''due'' v))))"
    using list_cmd_sorts_then_filters [of Pending "''due''" ?F3] by (rule conjunct1)
  from run1 run2 run3 eq1 [symmetric] eq2 [symmetric] eq3 [symmetric] show ?thesis
    by (simp only: simp_thms)
qed

section \<open>Reading lines and fields\<close>

lemma getline_loop_append:
  "getline_loop d cur (a @ d # b) = getline_loop d cur (a @ [d]) @ getline_loop d [] b"
  by (induction a arbitrary: cur) simp_all

lemma getline_loop_one:
  "d \<notin> set a \<Longrightarrow> getline_loop d cur (a @ [d]) = [cur @ a]"
  by (induction a arbitrary: cur) auto

lemma getline_loop_last:
  "d \<notin> set a \<Longrightarrow> getline_loop d cur a = (if cur @ a = [] then [] else [cur @ a])"
  by (induction a arbitrary: cur) auto

lemma getline_loop_field:
  "d \<notin> set a \<Longrightarrow> getline_loop d cur (a @ d # b) = (cur @ a) # getline_loop d [] b"
  by (induction a arbitrary: cur) auto

lemma getline_loop_no_delim:
  "d \<notin> set cur \<Longrightarrow> l \<in> set (getline_loop d cur s) \<Longrightarrow> d \<notin> set l"
proof (induction s arbitrary: cur)
  case Nil
  then show ?case by (auto split: if_splits)
next
  case (Cons c s)
  show ?case
  proof (cases "c = d")
    case True
    with Cons.prems have "l = cur \<or> l \<in> set (getline_loop d [] s)" by simp
    then show ?thesis using Cons.IH [of "[]"] Cons.prems(1) by auto
  next
    case False
    with Cons.prems have "l \<in> set (getline_loop d (cur @ [c]) s)" by simp
    then show ?thesis using Cons.IH [of "cur @ [c]"] Cons.prems(1) False by auto
  qed
qed

lemma getline_loop_subset:
  "l \<in> set (getline_loop d cur s) \<Longrightarrow> set l \<subseteq> set cur \<union> set s"
proof (induction s arbitrary: cur)
  case Nil
  then show ?case by (auto split: if_splits)
next
  case (Cons c s)
  show ?case
  proof (cases "c = d")
    case True
    with Cons.prems have "l = cur \<or> l \<in> set (getline_loop d [] s)" by simp
    then show ?thesis using Cons.IH [of "[]"] by auto
  next
    case False
    with Cons.prems have "l \<in> set (getline_loop d (cur @ [c]) s)" by simp
    then show ?thesis using Cons.IH [of "cur @ [c]"] by auto
  qed
qed

lemma decode_line_skipped: "decode_line l = Inr None \<longleftrightarrow> skipped_line l"
  by (auto simp: decode_line_def skipped_line_def Let_def split: sum.splits)

lemma load_loop_acc:
  "load_loop acc ls = (case load_loop [] ls of Inl e \<Rightarrow> Inl e | Inr v \<Rightarrow> Inr (acc @ v))"
proof (induction ls arbitrary: acc)
  case Nil
  show ?case by simp
next
  case (Cons l ls)
  show ?case
  proof (cases "decode_line l")
    case (Inl e)
    then show ?thesis by simp
  next
    case (Inr r)
    show ?thesis
    proof (cases r)
      case None
      with Inr Cons.IH [of acc] show ?thesis by simp
    next
      case (Some t)
      with Inr Cons.IH [of "acc @ [t]"] Cons.IH [of "[t]"] show ?thesis
        by (simp split: sum.splits)
    qed
  qed
qed

lemma load_loop_append:
  "load_loop acc (xs @ ys) = (case load_loop acc xs of Inl e \<Rightarrow> Inl e | Inr v \<Rightarrow> load_loop v ys)"
  by (induction xs arbitrary: acc) (simp_all split: sum.splits option.splits)

lemma load_loop_filter:
  "load_loop acc (filter (\<lambda>l. \<not> skipped_line l) ls) = load_loop acc ls"
  by (induction ls arbitrary: acc)
     (auto simp: decode_line_skipped [symmetric] split: sum.splits option.splits)

lemma load_loop_result:
  "load_loop acc ls = Inr v \<Longrightarrow>
     map (\<lambda>t. Inr (Some t)) v = map (\<lambda>t. Inr (Some t)) acc @ map decode_line (filter (\<lambda>l. \<not> skipped_line l) ls)"
  by (induction ls arbitrary: acc)
     (auto simp: decode_line_skipped [symmetric] split: sum.splits option.splits)

lemma decode_line_raises:
  "decode_line l = Inl e \<longleftrightarrow> \<not> skipped_line l \<and> stoi (split l SEP ! 0) = Inl e"
  by (auto simp: decode_line_def skipped_line_def Let_def split: sum.splits)

lemma load_loop_returns:
  "(\<exists>v. load_loop acc ls = Inr v) \<longleftrightarrow>
     (\<forall>l \<in> set ls. skipped_line l \<or> (\<exists>i. stoi (split l SEP ! 0) = Inr i))"
proof (induction ls arbitrary: acc)
  case Nil
  show ?case by simp
next
  case (Cons l ls)
  show ?case
  proof (cases "decode_line l")
    case (Inl e)
    moreover from Inl have "\<not> skipped_line l \<and> stoi (split l SEP ! 0) = Inl e"
      by (simp add: decode_line_raises)
    ultimately show ?thesis by auto
  next
    case (Inr r)
    then have "skipped_line l \<or> (\<exists>i. stoi (split l SEP ! 0) = Inr i)"
      by (auto simp: decode_line_def skipped_line_def Let_def split: sum.splits if_splits)
    with Inr Cons.IH show ?thesis
      by (cases r) auto
  qed
qed

text \<open>
  Claim C9, as amended. For every content of the data file, loading takes no notice of
  blank lines and of lines with fewer than five fields: the result is that of the other
  lines alone, so such a line is never an error. Loading returns exactly when the first
  field of every other line converts with \<^verbatim>\<open>std::stoi\<close>, and then returns the decoded
  tasks of those lines in file order; a line of five fields whose first field does not
  convert ends the run with the exception of \<^verbatim>\<open>std::stoi\<close>.
\<close>

theorem load_tasks_tolerant:
  "load_tasks (Some c) = load_loop [] (filter (\<lambda>l. \<not> skipped_line l) (getline_loop NL [] c))
   \<and> ((\<exists>v. load_tasks (Some c) = Inr v) \<longleftrightarrow>
        (\<forall>l \<in> set (getline_loop NL [] c). skipped_line l \<or> (\<exists>i. stoi (split l SEP ! 0) = Inr i)))
   \<and> (\<forall>v. load_tasks (Some c) = Inr v \<longrightarrow>
        map (\<lambda>t. Inr (Some t)) v = map decode_line (filter (\<lambda>l. \<not> skipped_line l) (getline_loop NL [] c)))"
  using load_loop_result [of "[]" "getline_loop NL [] c"] load_loop_returns [of "[]" "getline_loop NL [] c"]
  by (simp add: load_tasks_def load_loop_filter)

text \<open>
  A short line and a blank line between two records are skipped; the two tasks come back
  in file order.
\<close>

theorem load_tasks_tolerant_witness:
  "load_tasks (Some (''2|0|H|-|b'' @ [NL] @ ''oops'' @ [NL] @ ''  '' @ [NL] @ ''1|1|L|2024-01-01|a'' @ [NL]))
     = Inr [\<lparr>t_id = 2, t_done = False, t_priority = CHR ''H'', t_due = None, t_title = ''b''\<rparr>,
            \<lparr>t_id = 1, t_done = True, t_priority = CHR ''L'', t_due = Some ''2024-01-01'', t_title = ''a''\<rparr>]
   \<and> load_loop [] (filter (\<lambda>l. \<not> skipped_line l)
        (getline_loop NL [] (''2|0|H|-|b'' @ [NL] @ ''oops'' @ [NL] @ ''  '' @ [NL] @ ''1|1|L|2024-01-01|a'' @ [NL])))
     = Inr [\<lparr>t_id = 2, t_done = False, t_priority = CHR ''H'', t_due = None, t_title = ''b''\<rparr>,
            \<lparr>t_id = 1, t_done = True, t_priority = CHR ''L'', t_due = Some ''2024-01-01'', t_title = ''a''\<rparr>]"
proof -
  have run: "load_tasks (Some (''2|0|H|-|b'' @ [NL] @ ''oops'' @ [NL] @ ''  '' @ [NL] @ ''1|1|L|2024-01-01|a'' @ [NL]))
     = Inr [\<lparr>t_id = 2, t_done = False, t_priority = CHR ''H'', t_due = None, t_title = ''b''\<rparr>,
            \<lparr>t_id = 1, t_done = True, t_priority = CHR ''L'', t_due = Some ''2024-01-01'', t_title = ''a''\<rparr>]"
    by code_simp
  have skip: "load_tasks (Some (''2|0|H|-|b'' @ [NL] @ ''oops'' @ [NL] @ ''  '' @ [NL] @ ''1|1|L|2024-01-01|a'' @ [NL]))
     = load_loop [] (filter (\<lambda>l. \<not> skipped_line l)
        (getline_loop NL [] (''2|0|H|-|b'' @ [NL] @ ''oops'' @ [NL] @ ''  '' @ [NL] @ ''1|1|L|2024-01-01|a'' @ [NL])))"
    using load_tasks_tolerant
      [of "''2|0|H|-|b'' @ [NL] @ ''oops'' @ [NL] @ ''  '' @ [NL] @ ''1|1|L|2024-01-01|a'' @ [NL]"]
    by (rule conjunct1)
  from run skip [symmetric] show ?thesis
    by (simp only: simp_thms)
qed

text \<open>
  Claim C9 as stated fails on a record of five fields whose id is not a number: loading
  does not return a sequence, it ends with the exception of \<^verbatim>\<open>std::stoi\<close>.
\<close>

theorem load_tasks_counterexample:
  "load_tasks (Some (''x|0|M|-|t'' @ [NL])) = Inl invalid_argument"
  by code_simp

section \<open>Encoded lines\<close>

lemma of_char_char_of_int:
  assumes "0 \<le> k" "k < 256"
  shows "(of_char (char_of (k::int)) :: nat) = nat k"
proof -
  have "int (of_char (char_of k)) = (of_char (char_of k) :: int)"
    by (simp add: of_nat_of_char)
  also have "\<dots> = k mod 256"
    by (rule of_char_of)
  finally show ?thesis
    using assms by simp
qed

lemma digit_char: "0 \<le> n \<Longrightarrow> n < 10 \<Longrightarrow> isdigit (char_of (48 + n :: int))"
  by (simp add: isdigit_def of_char_char_of_int) arith

lemma show_digits_isdigit: "0 \<le> n \<Longrightarrow> c \<in> set (show_digits n) \<Longrightarrow> isdigit c"
proof (induction n rule: show_digits.induct)
  case (1 n)
  show ?case
  proof (cases "n < 10")
    case True
    with "1.prems" show ?thesis
      by (simp add: show_digits.simps [of n] digit_char)
  next
    case False
    with "1.prems" "1.IH" digit_char [of "n mod 10"] show ?thesis
      by (auto simp: show_digits.simps [of n])
  qed
qed

lemma show_digits_nonempty: "show_digits n \<noteq> []"
  by (subst show_digits.simps) simp

lemma show_int_chars: "c \<in> set (show_int i) \<Longrightarrow> isdigit c \<or> c = CHR ''-''"
  using show_digits_isdigit [of "- i" c] show_digits_isdigit [of i c]
  by (auto simp: show_int_def split: if_splits)

lemma show_int_nonempty: "show_int i \<noteq> []"
  by (simp add: show_int_def show_digits_nonempty)

lemma show_int_no_SEP: "SEP \<notin> set (show_int i)"
  by (auto dest: show_int_chars simp: SEP_def isdigit_def)

lemma show_int_no_NL: "NL \<notin> set (show_int i)"
  by (auto dest: show_int_chars simp: NL_def isdigit_def)

lemma show_int_not_blank: "c \<in> set (show_int i) \<Longrightarrow> c \<notin> trim_chars"
  by (auto dest!: show_int_chars simp: trim_chars_def isdigit_def NL_def CR_def TAB_def)

lemma find_first_not_of_None: "find_first_not_of s cs = None \<longleftrightarrow> set s \<subseteq> cs"
  by (induction s) auto

lemma find_last_not_of_None: "find_last_not_of s cs = None \<longleftrightarrow> set s \<subseteq> cs"
  by (induction s) (auto split: option.splits)

lemma find_first_not_of_less: "find_first_not_of s cs = Some b \<Longrightarrow> b < length s"
  by (induction s arbitrary: b) (auto split: if_splits)

lemma find_first_le_last:
  "find_first_not_of s cs = Some b \<Longrightarrow> find_last_not_of s cs = Some e \<Longrightarrow> b \<le> e"
  by (induction s arbitrary: b e) (auto split: if_splits option.splits simp: find_last_not_of_None find_first_not_of_None)

lemma trim_empty_iff: "trim s = [] \<longleftrightarrow> set s \<subseteq> trim_chars"
proof (cases "find_first_not_of s trim_chars")
  case None
  then show ?thesis by (simp add: trim_def find_first_not_of_None [symmetric])
next
  case (Some b)
  then have nsub: "\<not> set s \<subseteq> trim_chars"
    using find_first_not_of_None [of s trim_chars] by simp
  then obtain e where e: "find_last_not_of s trim_chars = Some e"
    using find_last_not_of_None [of s trim_chars] by (cases "find_last_not_of s trim_chars") auto
  from Some have "b < length s" by (rule find_first_not_of_less)
  with Some e nsub show ?thesis
    by (simp add: trim_def substr_def)
qed

lemma encode_field_clean:
  "SEP \<notin> set (encode_field s)" "NL \<notin> set (encode_field s)" "CR \<notin> set (encode_field s)"
  by (auto simp: encode_field_def SEP_def)

lemma split_encode_line:
  assumes "field_safe t"
  shows "split (encode_line t) SEP =
    [show_int (sint (t_id t)), [if t_done t then CHR ''1'' else CHR ''0''], [t_priority t],
     (case t_due t of Some d \<Rightarrow> d | None \<Rightarrow> ''-'')]
    @ getline_loop SEP [] (encode_field (t_title t))"
proof -
  have d: "SEP \<notin> set (case t_due t of Some d \<Rightarrow> d | None \<Rightarrow> ''-'')"
    using assms by (auto simp: field_safe_def SEP_def split: option.splits)
  have p: "SEP \<notin> set [t_priority t]"
    using assms by (auto simp: field_safe_def)
  have b: "SEP \<notin> set [if t_done t then CHR ''1'' else CHR ''0'']"
    by (simp add: SEP_def)
  show ?thesis
    unfolding split_def encode_line_def
    using getline_loop_field [OF show_int_no_SEP, of "[]"]
      getline_loop_field [OF b, of "[]"] getline_loop_field [OF p, of "[]"]
      getline_loop_field [OF d, of "[]"]
    by simp
qed

lemma encode_line_not_blank: "trim (encode_line t) \<noteq> []"
proof -
  obtain c cs where "show_int (sint (t_id t)) = c # cs"
    using show_int_nonempty [of "sint (t_id t)"] by (cases "show_int (sint (t_id t))") auto
  then have "c \<in> set (encode_line t)" "c \<notin> trim_chars"
    using show_int_not_blank [of c "sint (t_id t)"] by (auto simp: encode_line_def)
  then show ?thesis by (auto simp: trim_empty_iff)
qed

lemma encode_line_no_NL: "field_safe t \<Longrightarrow> NL \<notin> set (encode_line t)"
  using show_int_no_NL [of "sint (t_id t)"] encode_field_clean(2) [of "t_title t"]
  by (auto simp: encode_line_def field_safe_def NL_def SEP_def split: option.splits if_splits)

lemma decode_empty_title:
  assumes "field_safe t" "encode_field (t_title t) = []"
  shows "decode_line (encode_line t) = Inr None"
  using assms by (simp add: decode_line_def split_encode_line)

lemma lines_save_tasks_append:
  "getline_loop NL [] (save_tasks xs @ rest) = getline_loop NL [] (save_tasks xs) @ getline_loop NL [] rest"
proof (induction xs rule: rev_induct)
  case Nil
  show ?case by (simp add: save_tasks_def)
next
  case (snoc t ts)
  have "save_tasks (ts @ [t]) = (save_tasks ts @ encode_line t) @ [NL]"
    by (simp add: save_tasks_def)
  then show ?case
    using getline_loop_append [of NL "[]" "save_tasks ts @ encode_line t" rest]
    by simp
qed

lemma save_tasks_append: "save_tasks (xs @ ys) = save_tasks xs @ save_tasks ys"
  by (simp add: save_tasks_def)

lemma lines_save_one:
  "field_safe t \<Longrightarrow> getline_loop NL [] (save_tasks (t # ys)) = encode_line t # getline_loop NL [] (save_tasks ys)"
  using getline_loop_field [OF encode_line_no_NL, of t "[]" "save_tasks ys"]
  by (simp add: save_tasks_def)

section \<open>Saving and loading again\<close>

text \<open>Printing an \<^verbatim>\<open>int\<close> and converting the text gives the \<^verbatim>\<open>int\<close> back.\<close>

lemma digits_val_snoc: "digits_val (ds @ [c]) = 10 * digits_val ds + digit_val c"
  by (simp add: digits_val_def)

lemma digit_val_char: "0 \<le> n \<Longrightarrow> n < 10 \<Longrightarrow> digit_val (char_of (48 + n :: int)) = n"
  by (simp add: digit_val_def)

lemma digits_val_show_digits: "0 \<le> n \<Longrightarrow> digits_val (show_digits n) = n"
proof (induction n rule: show_digits.induct)
  case (1 n)
  show ?case
  proof (cases "n < 10")
    case True
    with "1.prems" show ?thesis
      by (simp add: show_digits.simps [of n] digits_val_def digit_val_char)
  next
    case False
    with "1.prems" "1.IH" show ?thesis
      by (simp add: show_digits.simps [of n] digits_val_snoc digit_val_char)
  qed
qed

lemma takeWhile_all: "(\<And>c. c \<in> set s \<Longrightarrow> P c) \<Longrightarrow> takeWhile P s = s"
  by (induction s) auto

lemma show_digits_hd:
  assumes "0 \<le> n"
  shows "isdigit (hd (show_digits n))"
  using show_digits_isdigit [OF assms, of "hd (show_digits n)"] show_digits_nonempty [of n]
  by simp

lemma isdigit_not_space: "isdigit c \<Longrightarrow> \<not> isspace c \<and> c \<noteq> CHR ''-'' \<and> c \<noteq> CHR ''+''"
  by (auto simp: isdigit_def isspace_def)

lemma stoi_show_int:
  assumes "INT_MIN \<le> i" "i \<le> INT_MAX"
  shows "stoi (show_int i) = Inr (word_of_int i)"
proof (cases "i < 0")
  case True
  let ?ds = "show_digits (- i)"
  have all: "isdigit c" if "c \<in> set ?ds" for c
    using that True show_digits_isdigit [of "- i" c] by simp
  have "\<not> isspace CHR ''-''" by (simp add: isspace_def)
  then have 1: "dropWhile isspace (show_int i) = CHR ''-'' # ?ds"
    using True by (simp add: show_int_def)
  show ?thesis
    using True assms show_digits_nonempty [of "- i"] digits_val_show_digits [of "- i"]
    by (simp add: stoi_def 1 takeWhile_all [OF all] Let_def)
next
  case False
  let ?ds = "show_digits i"
  have all: "isdigit c" if "c \<in> set ?ds" for c
    using that False show_digits_isdigit [of i c] by simp
  obtain c cs where cs: "?ds = c # cs"
    using show_digits_nonempty [of i] by (cases ?ds) auto
  then have c: "isdigit c" using all by simp
  have 1: "dropWhile isspace (show_int i) = ?ds"
    using False cs isdigit_not_space [OF c] by (simp add: show_int_def)
  have 2: "hd ?ds \<noteq> CHR ''-''" "hd ?ds \<noteq> CHR ''+''"
    using cs isdigit_not_space [OF c] by simp_all
  show ?thesis
    using False assms show_digits_nonempty [of i] digits_val_show_digits [of i] 2
    by (simp add: stoi_def 1 takeWhile_all [OF all] Let_def)
qed

lemma stoi_show_sint: "stoi (show_int (sint (w :: 32 word))) = Inr w"
proof -
  have "INT_MIN \<le> sint w" "sint w \<le> INT_MAX"
    using sint_ge [of w] sint_lt [of w] by (simp_all add: INT_MIN_def INT_MAX_def)
  then show ?thesis
    by (simp add: stoi_show_int)
qed

text \<open>
  A task whose encoded title is not empty comes back from its line, with the encoded
  title; and a saved collection loads as its tasks with a non-empty encoded title, in
  order.
\<close>

lemma decode_encode_line:
  assumes "field_safe t" "encode_field (t_title t) \<noteq> []"
  shows "decode_line (encode_line t) = Inr (Some (stored t))"
proof -
  have parts: "split (encode_line t) SEP =
    [show_int (sint (t_id t)), [if t_done t then CHR ''1'' else CHR ''0''], [t_priority t],
     (case t_due t of Some d \<Rightarrow> d | None \<Rightarrow> ''-''), encode_field (t_title t)]"
    using assms by (simp add: split_encode_line getline_loop_last encode_field_clean)
  have "decode_line (encode_line t)
      = Inr (Some \<lparr> t_id = t_id t, t_done = t_done t, t_priority = t_priority t,
                       t_due = t_due t, t_title = encode_field (t_title t) \<rparr>)"
    using assms(1)
    by (auto simp: decode_line_def encode_line_not_blank parts stoi_show_sint field_safe_def
        split: option.splits)
  then show ?thesis
    by (cases t) (simp add: stored_def)
qed

lemma load_save_tasks:
  assumes "list_all field_safe v"
  shows "load_tasks (Some (save_tasks v))
    = Inr (map stored (filter (\<lambda>t. encode_field (t_title t) \<noteq> []) v))"
proof -
  have "load_loop [] (getline_loop NL [] (save_tasks v))
      = Inr (map stored (filter (\<lambda>t. encode_field (t_title t) \<noteq> []) v))"
    using assms
  proof (induction v)
    case Nil
    show ?case by (simp add: save_tasks_def)
  next
    case (Cons t ts)
    then have safe: "field_safe t" and rest: "list_all field_safe ts" by simp_all
    show ?case
    proof (cases "encode_field (t_title t) = []")
      case True
      with safe Cons.IH [OF rest] show ?thesis
        by (simp add: lines_save_one decode_empty_title)
    next
      case False
      with safe Cons.IH [OF rest] show ?thesis
        by (simp add: lines_save_one decode_encode_line
            load_loop_acc [of "[stored t]"])
    qed
  qed
  then show ?thesis by (simp add: load_tasks_def)
qed

subsection \<open>The representation invariant holds for every task the program builds\<close>

lemma split_part_clean:
  assumes "k < length (split l SEP)"
  shows "SEP \<notin> set (split l SEP ! k)" "set (split l SEP ! k) \<subseteq> set l"
proof -
  have "split l SEP ! k \<in> set (getline_loop SEP [] l)"
    using assms by (simp add: split_def)
  then show "SEP \<notin> set (split l SEP ! k)" "set (split l SEP ! k) \<subseteq> set l"
    using getline_loop_no_delim [of SEP "[]" "split l SEP ! k" l]
      getline_loop_subset [of "split l SEP ! k" SEP "[]" l]
    by simp_all
qed

lemma decode_line_safe:
  assumes "decode_line l = Inr (Some t)" "NL \<notin> set l"
  shows "field_safe t"
proof -
  from assms(1) have len: "5 \<le> length (split l SEP)"
    by (auto simp: decode_line_def Let_def split: if_splits sum.splits)
  then have 2: "SEP \<notin> set (split l SEP ! 2)" "NL \<notin> set (split l SEP ! 2)"
    and 3: "SEP \<notin> set (split l SEP ! 3)" "NL \<notin> set (split l SEP ! 3)"
    using split_part_clean [of 2 l] split_part_clean [of 3 l] assms(2) by auto
  have hd2: "split l SEP ! 2 \<noteq> [] \<Longrightarrow> hd (split l SEP ! 2) \<noteq> SEP \<and> hd (split l SEP ! 2) \<noteq> NL"
    using 2 hd_in_set [of "split l SEP ! 2"] by metis
  from assms(1) len hd2 3 show ?thesis
    by (auto simp: decode_line_def Let_def field_safe_def SEP_def NL_def
        split: if_splits sum.splits)
qed

lemma load_loop_safe:
  assumes "\<forall>l \<in> set ls. NL \<notin> set l" "list_all field_safe acc" "load_loop acc ls = Inr v"
  shows "list_all field_safe v"
  using assms
proof (induction ls arbitrary: acc)
  case Nil
  then show ?case by simp
next
  case (Cons l ls)
  show ?case
  proof (cases "decode_line l")
    case (Inl e)
    with Cons.prems show ?thesis by simp
  next
    case (Inr r)
    show ?thesis
    proof (cases r)
      case None
      with Inr Cons show ?thesis by simp
    next
      case (Some t)
      with Inr Cons.prems have "field_safe t"
        using decode_line_safe [of l t] by simp
      with Some Inr Cons.prems Cons.IH [of "acc @ [t]"] show ?thesis by simp
    qed
  qed
qed

lemma load_tasks_safe:
  assumes "load_tasks file = Inr v"
  shows "list_all field_safe v"
proof (cases "file")
  case None
  with assms show ?thesis by (simp add: load_tasks_def)
next
  case (Some c)
  with assms have "load_loop [] (getline_loop NL [] c) = Inr v"
    by (simp add: load_tasks_def)
  moreover have "\<forall>l \<in> set (getline_loop NL [] c). NL \<notin> set l"
    using getline_loop_no_delim [of NL "[]" _ c] by auto
  ultimately show ?thesis
    using load_loop_safe [of "getline_loop NL [] c" "[]" v] by simp
qed

lemma valid_date_chars:
  assumes "is_valid_date d" "c \<in> set d"
  shows "isdigit c \<or> c = CHR ''-''"
proof -
  from assms(2) obtain i where i: "i < length d" "d ! i = c"
    by (auto simp: in_set_conv_nth)
  from assms(1) have "\<forall>i < length d. i = 4 \<or> i = 7 \<or> isdigit (d ! i)"
    and "d ! 4 = CHR ''-''" "d ! 7 = CHR ''-''"
    by (auto simp: is_valid_date_def list_all_iff split: if_splits)
  with i show ?thesis by auto
qed

lemma valid_date_safe:
  assumes "is_valid_date d"
  shows "SEP \<notin> set d \<and> NL \<notin> set d \<and> d \<noteq> ''-''"
proof -
  have "length d = 10"
    using assms by (auto simp: is_valid_date_def split: if_splits)
  then have "d \<noteq> ''-''" by auto
  moreover have "SEP \<notin> set d"
    using valid_date_chars [OF assms, of SEP] by (auto simp: SEP_def isdigit_def)
  moreover have "NL \<notin> set d"
    using valid_date_chars [OF assms, of NL] by (auto simp: NL_def isdigit_def)
  ultimately show ?thesis by simp
qed

lemma add_args_safe:
  assumes "add_args args pr due title_parts = Inr (pr', due', title_parts')"
    and "pr \<in> {CHR ''H'', CHR ''M'', CHR ''L''}"
    and "case due of None \<Rightarrow> True | Some d \<Rightarrow> is_valid_date d"
  shows "pr' \<in> {CHR ''H'', CHR ''M'', CHR ''L''} \<and> (case due' of None \<Rightarrow> True | Some d \<Rightarrow> is_valid_date d)"
  using assms
proof (induction args pr due title_parts rule: add_args.induct)
  case (1 pr due title_parts)
  then show ?case by simp
next
  case (2 a rest pr due title_parts)
  show ?case
  proof (cases "a = ''-p'' \<and> rest \<noteq> []")
    case True
    with "2.prems" "2.IH"(1) show ?thesis
      by (auto simp: Let_def split: if_splits)
  next
    case False
    note notp = this
    show ?thesis
    proof (cases "a = ''-d'' \<and> rest \<noteq> []")
      case True
      with notp "2.prems" "2.IH"(2) show ?thesis
        by (auto simp: Let_def split: if_splits)
    next
      case False
      with notp "2.prems" "2.IH"(3) show ?thesis
        by (auto simp: Let_def split: if_splits)
    qed
  qed
qed

text \<open>The task that \<^verbatim>\<open>add\<close> appends satisfies the invariant, whatever its title.\<close>

lemma add_builds_safe:
  assumes "add_args args CHR ''M'' None [] = Inr (pr, due, title_parts)"
  shows "field_safe \<lparr> t_id = i, t_done = False, t_priority = pr, t_due = due, t_title = title \<rparr>"
proof -
  from add_args_safe [OF assms]
  have pr: "pr \<in> {CHR ''H'', CHR ''M'', CHR ''L''}"
    and due: "case due of None \<Rightarrow> True | Some d \<Rightarrow> is_valid_date d"
    by simp_all
  from pr have "pr \<noteq> SEP \<and> pr \<noteq> NL"
    by (auto simp: SEP_def NL_def)
  moreover from due have "case due of None \<Rightarrow> True | Some d \<Rightarrow> SEP \<notin> set d \<and> NL \<notin> set d \<and> d \<noteq> ''-''"
    by (auto split: option.splits dest: valid_date_safe)
  ultimately show ?thesis
    by (simp add: field_safe_def)
qed

section \<open>The empty title\<close>

text \<open>
  Claim C10. A task with the empty title is encoded as a line that ends with the
  separator; the split of that line has four fields; decoding skips it; and loading a
  saved collection that holds the task gives what loading the collection without it
  gives, which is the other tasks as they come back from the file: the task is gone
  after a save and a load.
\<close>

theorem empty_title_dropped:
  assumes "field_safe t" "t_title t = []"
  shows "last (encode_line t) = SEP
    \<and> length (split (encode_line t) SEP) = 4
    \<and> decode_line (encode_line t) = Inr None
    \<and> load_tasks (Some (save_tasks (xs @ t # ys))) = load_tasks (Some (save_tasks (xs @ ys)))
    \<and> (list_all field_safe (xs @ ys) \<longrightarrow>
         load_tasks (Some (save_tasks (xs @ t # ys)))
           = Inr (map stored (filter (\<lambda>u. encode_field (t_title u) \<noteq> []) (xs @ ys))))"
proof -
  have e: "encode_field (t_title t) = []"
    using assms(2) by (simp add: encode_field_def)
  have d: "decode_line (encode_line t) = Inr None"
    using assms(1) e by (rule decode_empty_title)
  have "load_tasks (Some (save_tasks (xs @ t # ys)))
      = load_loop [] (getline_loop NL [] (save_tasks xs) @ encode_line t # getline_loop NL [] (save_tasks ys))"
    by (simp add: load_tasks_def save_tasks_append lines_save_tasks_append lines_save_one assms(1))
  also have "\<dots> = load_loop [] (getline_loop NL [] (save_tasks xs) @ getline_loop NL [] (save_tasks ys))"
    by (simp add: load_loop_append d split: sum.splits)
  also have "\<dots> = load_tasks (Some (save_tasks (xs @ ys)))"
    by (simp add: load_tasks_def save_tasks_append lines_save_tasks_append)
  finally have same:
    "load_tasks (Some (save_tasks (xs @ t # ys))) = load_tasks (Some (save_tasks (xs @ ys)))" .
  have line: "last (encode_line t) = SEP"
    using e by (simp add: encode_line_def)
  have four: "length (split (encode_line t) SEP) = 4"
    using e assms(1) by (simp add: split_encode_line)
  have rest: "list_all field_safe (xs @ ys) \<longrightarrow>
         load_tasks (Some (save_tasks (xs @ t # ys)))
           = Inr (map stored (filter (\<lambda>u. encode_field (t_title u) \<noteq> []) (xs @ ys)))"
    using same load_save_tasks [of "xs @ ys"] by simp
  from line four d same rest show ?thesis
    by (intro conjI)
qed

text \<open>
  Task 2 with the empty title, saved after task 1: the line of task 2 is \<^verbatim>\<open>2|0|M|-|\<close>
  and only task 1 comes back.
\<close>

theorem empty_title_dropped_witness:
  "field_safe \<lparr>t_id = 2, t_done = False, t_priority = CHR ''M'', t_due = None, t_title = []\<rparr>
   \<and> encode_line \<lparr>t_id = 2, t_done = False, t_priority = CHR ''M'', t_due = None, t_title = []\<rparr>
       = ''2|0|M|-|''
   \<and> load_tasks (Some (save_tasks
        ([\<lparr>t_id = 1, t_done = True, t_priority = CHR ''H'', t_due = None, t_title = ''a''\<rparr>]
         @ \<lparr>t_id = 2, t_done = False, t_priority = CHR ''M'', t_due = None, t_title = []\<rparr> # [])))
       = Inr [\<lparr>t_id = 1, t_done = True, t_priority = CHR ''H'', t_due = None, t_title = ''a''\<rparr>]"
proof -
  let ?t = "\<lparr>t_id = 2, t_done = False, t_priority = CHR ''M'', t_due = None, t_title = []\<rparr>"
  let ?a = "\<lparr>t_id = 1, t_done = True, t_priority = CHR ''H'', t_due = None, t_title = ''a''\<rparr>"
  have safe: "field_safe ?t"
    by code_simp
  have title: "t_title ?t = []"
    by simp
  have line: "encode_line ?t = ''2|0|M|-|''"
    by code_simp
  have others: "load_tasks (Some (save_tasks ([?a] @ []))) = Inr [?a]"
    by code_simp
  from empty_title_dropped [OF safe title, of "[?a]" "[]"]
  have "load_tasks (Some (save_tasks ([?a] @ ?t # []))) = load_tasks (Some (save_tasks ([?a] @ [])))"
    by (elim conjE)
  then have "load_tasks (Some (save_tasks ([?a] @ ?t # []))) = Inr [?a]"
    using others by (rule trans)
  with safe line show ?thesis
    by (intro conjI)
qed

section \<open>The arguments of add\<close>

lemma priority_ok_flag: "\<not> priority_ok ''-p''"
  by (simp add: priority_ok_def first_byte_def toupper_def)

lemma valid_date_flag: "\<not> is_valid_date ''-p''"
  by (simp add: is_valid_date_def)

lemma add_args_step_p:
  "add_args (''-p'' # v # rest) pr due title_parts =
     (if priority_ok v then add_args rest (toupper (first_byte v)) due title_parts
      else Inl (''Invalid priority. Use H/M/L.'' @ [NL]))"
  by (simp add: priority_ok_def Let_def)

lemma add_args_bad_priority:
  assumes "i < length args" "args ! i = ''-p''"
    and "\<not> (Suc i < length args \<and> priority_ok (args ! Suc i))"
  shows "\<exists>msg. add_args args pr due title_parts = Inl msg"
  using assms
proof (induction args pr due title_parts arbitrary: i rule: add_args.induct)
  case (1 pr due title_parts)
  then show ?case by simp
next
  case (2 a rest pr due title_parts)
  show ?case
  proof (cases rest)
    case Nil
    with "2.prems" have "a = ''-p''" by simp
    with Nil show ?thesis by simp
  next
    case (Cons v rest')
    show ?thesis
    proof (cases "a = ''-p''")
      case True
      show ?thesis
      proof (cases "priority_ok v")
        case False
        with True Cons show ?thesis by (simp add: priority_ok_def Let_def)
      next
        case ok: True
        with "2.prems" True Cons priority_ok_flag obtain j where j: "i = Suc (Suc j)"
          by (cases i rule: nat.exhaust; cases "i - 1" rule: nat.exhaust) auto
        have "\<exists>msg. add_args (tl rest) (toupper (first_byte (hd rest))) due title_parts = Inl msg"
        proof (rule "2.IH"(1) [of "toupper (first_byte (hd rest))" j])
          show "a = ''-p'' \<and> rest \<noteq> []" using True Cons by simp
          show "toupper (first_byte (hd rest)) = toupper (first_byte (hd rest))" ..
          show "\<not> (toupper (first_byte (hd rest)) \<noteq> CHR ''H'' \<and> toupper (first_byte (hd rest)) \<noteq> CHR ''M''
              \<and> toupper (first_byte (hd rest)) \<noteq> CHR ''L'')"
            using ok Cons by (auto simp: priority_ok_def)
          show "j < length (tl rest)" using "2.prems"(1) j Cons by simp
          show "tl rest ! j = ''-p''" using "2.prems"(2) j Cons by simp
          show "\<not> (Suc j < length (tl rest) \<and> priority_ok (tl rest ! Suc j))"
            using "2.prems"(3) j Cons by simp
        qed
        with True Cons ok show ?thesis by (simp add: priority_ok_def Let_def)
      qed
    next
      case notp: False
      show ?thesis
      proof (cases "a = ''-d''")
        case True
        show ?thesis
        proof (cases "is_valid_date v")
          case False
          with True Cons show ?thesis by (simp add: Let_def)
        next
          case ok: True
          with "2.prems" True Cons valid_date_flag obtain j where j: "i = Suc (Suc j)"
            by (cases i rule: nat.exhaust; cases "i - 1" rule: nat.exhaust) auto
          have "\<exists>msg. add_args (tl rest) pr (Some (hd rest)) title_parts = Inl msg"
          proof (rule "2.IH"(2) [of "hd rest" j])
            show "\<not> (a = ''-p'' \<and> rest \<noteq> [])" using True by simp
            show "a = ''-d'' \<and> rest \<noteq> []" using True Cons by simp
            show "hd rest = hd rest" ..
            show "\<not> \<not> is_valid_date (hd rest)" using ok Cons by simp
            show "j < length (tl rest)" using "2.prems"(1) j Cons by simp
            show "tl rest ! j = ''-p''" using "2.prems"(2) j Cons by simp
            show "\<not> (Suc j < length (tl rest) \<and> priority_ok (tl rest ! Suc j))"
              using "2.prems"(3) j Cons by simp
          qed
          with True Cons ok show ?thesis by (simp add: Let_def)
        qed
      next
        case notd: False
        show ?thesis
        proof (cases "a \<noteq> [] \<and> hd a = CHR ''-''")
          case True
          with notp notd show ?thesis by simp
        next
          case False
          with "2.prems"(2) obtain j where j: "i = Suc j"
            by (cases i) auto
          have "\<exists>msg. add_args rest pr due (title_parts @ [a]) = Inl msg"
          proof (rule "2.IH"(3) [of j])
            show "\<not> (a = ''-p'' \<and> rest \<noteq> [])" using notp by simp
            show "\<not> (a = ''-d'' \<and> rest \<noteq> [])" using notd by simp
            show "\<not> (a \<noteq> [] \<and> hd a = CHR ''-'')" using False .
            show "j < length rest" using "2.prems"(1) j by simp
            show "rest ! j = ''-p''" using "2.prems"(2) j by simp
            show "\<not> (Suc j < length rest \<and> priority_ok (rest ! Suc j))"
              using "2.prems"(3) j by simp
          qed
          with notp notd False show ?thesis by simp
        qed
      qed
    qed
  qed
qed

text \<open>
  Claim C4, as amended. When \<^verbatim>\<open>-p\<close> is followed by a value, the first byte of the
  value is put in upper case and becomes the priority if it is H, M or L; the rest of the
  value is not looked at. Whenever an argument \<^verbatim>\<open>-p\<close> is not followed by a value whose
  first byte passes this test, the command fails with status 1 and the data file is
  left as it was.
\<close>

theorem add_priority_flag:
  "add_args (''-p'' # v # rest) pr due title_parts =
     (if priority_ok v then add_args rest (toupper (first_byte v)) due title_parts
      else Inl (''Invalid priority. Use H/M/L.'' @ [NL]))
   \<and> (i < length args \<and> args ! i = ''-p'' \<and> \<not> (Suc i < length args \<and> priority_ok (args ! Suc i))
        \<longrightarrow> (\<exists>msg. main (''add'' # args) file
               = Inr \<lparr> exit_code = 1, data_file = file, cout = [], cerr = msg \<rparr>))"
proof -
  have "\<exists>msg. main (''add'' # args) file
               = Inr \<lparr> exit_code = 1, data_file = file, cout = [], cerr = msg \<rparr>"
    if bad: "i < length args" "args ! i = ''-p''"
      "\<not> (Suc i < length args \<and> priority_ok (args ! Suc i))"
  proof -
    from bad(1) have "args \<noteq> []" by auto
    moreover obtain msg where "add_args args CHR ''M'' None [] = Inl msg"
      using add_args_bad_priority [OF bad] by blast
    ultimately show ?thesis
      by (simp add: main_def add_cmd_def fail_def)
  qed
  then have "i < length args \<and> args ! i = ''-p'' \<and> \<not> (Suc i < length args \<and> priority_ok (args ! Suc i))
        \<longrightarrow> (\<exists>msg. main (''add'' # args) file
               = Inr \<lparr> exit_code = 1, data_file = file, cout = [], cerr = msg \<rparr>)"
    by blast
  with add_args_step_p [of v rest pr due title_parts] show ?thesis
    by (rule conjI)
qed

text \<open>\<^verbatim>\<open>add x -p zzz\<close> fails with status 1 and creates no file.\<close>

theorem add_priority_flag_witness:
  "(1 < length [''x'', ''-p'', ''zzz''] \<and> [''x'', ''-p'', ''zzz''] ! 1 = ''-p''
     \<and> \<not> (Suc 1 < length [''x'', ''-p'', ''zzz''] \<and> priority_ok ([''x'', ''-p'', ''zzz''] ! Suc 1)))
   \<and> main [''add'', ''x'', ''-p'', ''zzz''] None
     = Inr \<lparr> exit_code = 1, data_file = None, cout = [],
             cerr = ''Invalid priority. Use H/M/L.'' @ [NL] \<rparr>"
proof -
  have hyp: "1 < length [''x'', ''-p'', ''zzz''] \<and> [''x'', ''-p'', ''zzz''] ! 1 = ''-p''
     \<and> \<not> (Suc 1 < length [''x'', ''-p'', ''zzz''] \<and> priority_ok ([''x'', ''-p'', ''zzz''] ! Suc 1))"
    by code_simp
  have run: "main [''add'', ''x'', ''-p'', ''zzz''] None
     = Inr \<lparr> exit_code = 1, data_file = None, cout = [],
             cerr = ''Invalid priority. Use H/M/L.'' @ [NL] \<rparr>"
    by code_simp
  from add_priority_flag [of "''zzz''" "[]" "CHR ''M''" None "[''x'']" 1 "[''x'', ''-p'', ''zzz'']" None]
  have "\<exists>msg. main (''add'' # [''x'', ''-p'', ''zzz'']) None
               = Inr \<lparr> exit_code = 1, data_file = None, cout = [], cerr = msg \<rparr>"
    using hyp by blast
  with hyp run show ?thesis
    by blast
qed

text \<open>
  Claim C4 as stated fails on \<^verbatim>\<open>add x -p high\<close>: the value in upper case is HIGH,
  not one of the strings H, M, L, and the command succeeds with priority H.
\<close>

theorem add_priority_counterexample:
  "\<not> spec_priority_value ''high''
   \<and> main [''add'', ''x'', ''-p'', ''high''] None
     = Inr \<lparr> exit_code = 0, data_file = Some (''1|0|H|-|x'' @ [NL]),
             cout = ''Added task #1'' @ [NL], cerr = [] \<rparr>"
  by code_simp

text \<open>
  \<^verbatim>\<open>trim\<close> strips the white space at the end and at the start, and nothing else.
\<close>

lemma find_first_drop:
  "find_first_not_of s cs = Some b \<Longrightarrow> drop b s = dropWhile (\<lambda>c. c \<in> cs) s"
  by (induction s arbitrary: b) (auto split: if_splits)

lemma find_first_take:
  "find_first_not_of s cs = Some b \<Longrightarrow> b < n \<Longrightarrow> find_first_not_of (take n s) cs = Some b"
proof (induction s arbitrary: b n)
  case Nil
  then show ?case by simp
next
  case (Cons c s)
  then obtain m where n: "n = Suc m" by (cases n) auto
  with Cons show ?case by (auto split: if_splits)
qed

lemma find_last_take:
  "find_last_not_of s cs = Some e \<Longrightarrow> take (Suc e) s = rev (dropWhile (\<lambda>c. c \<in> cs) (rev s))"
proof (induction s arbitrary: e)
  case Nil
  then show ?case by simp
next
  case (Cons c s)
  show ?case
  proof (cases "find_last_not_of s cs")
    case None
    then have all: "\<forall>x \<in> set (rev s). x \<in> cs"
      by (auto simp: find_last_not_of_None)
    from None Cons.prems have c: "c \<notin> cs" "e = 0"
      by (auto split: if_splits)
    from all have "dropWhile (\<lambda>c. c \<in> cs) (rev s @ [c]) = dropWhile (\<lambda>c. c \<in> cs) [c]"
      by (intro dropWhile_append2) auto
    with c show ?thesis
      by simp
  next
    case (Some e')
    then have "\<not> set s \<subseteq> cs"
      using find_last_not_of_None [of s cs] by simp
    then obtain x where "x \<in> set (rev s)" "\<not> x \<in> cs"
      by auto
    then have "dropWhile (\<lambda>c. c \<in> cs) (rev s @ [c]) = dropWhile (\<lambda>c. c \<in> cs) (rev s) @ [c]"
      by (rule dropWhile_append1)
    with Some Cons.prems Cons.IH [of e'] show ?thesis
      by auto
  qed
qed

lemma trim_strips:
  "trim s = dropWhile (\<lambda>c. c \<in> trim_chars) (rev (dropWhile (\<lambda>c. c \<in> trim_chars) (rev s)))"
proof (cases "find_first_not_of s trim_chars")
  case None
  then have "set (rev s) \<subseteq> trim_chars"
    by (simp add: find_first_not_of_None)
  then have "dropWhile (\<lambda>c. c \<in> trim_chars) (rev s) = []"
    by auto
  then have "dropWhile (\<lambda>c. c \<in> trim_chars) (rev (dropWhile (\<lambda>c. c \<in> trim_chars) (rev s))) = []"
    by (simp only: rev.simps dropWhile.simps)
  with None show ?thesis
    by (simp only: trim_def option.case)
next
  case (Some b)
  then have "\<not> set s \<subseteq> trim_chars"
    using find_first_not_of_None [of s trim_chars] by simp
  then obtain e where e: "find_last_not_of s trim_chars = Some e"
    using find_last_not_of_None [of s trim_chars] by (cases "find_last_not_of s trim_chars") auto
  from Some e have le: "b \<le> e"
    by (rule find_first_le_last)
  have "trim s = take (e - b + 1) (drop b s)"
    using Some e by (simp add: trim_def substr_def)
  also have "\<dots> = drop b (take (Suc e) s)"
    using le by (simp add: drop_take Suc_diff_le)
  also have "\<dots> = dropWhile (\<lambda>c. c \<in> trim_chars) (take (Suc e) s)"
    using find_first_take [OF Some, of "Suc e"] le by (intro find_first_drop) simp
  also have "take (Suc e) s = rev (dropWhile (\<lambda>c. c \<in> trim_chars) (rev s))"
    using e by (rule find_last_take)
  finally show ?thesis .
qed

text \<open>
  What a successful \<^verbatim>\<open>add\<close> stores: the title parts joined by single spaces, then
  trimmed. Arguments that do not start with a dash are all title parts.
\<close>

lemma join_title_loop:
  "k \<noteq> 0 \<Longrightarrow>
     foldl (\<lambda>title (i, p). (if i \<noteq> 0 then title @ '' '' else title) @ p) acc (enumerate k ps)
       = acc @ concat (map (\<lambda>q. CHR '' '' # q) ps)"
  by (induction ps arbitrary: acc k) simp_all

lemma join_title_spaces:
  "join_title [] = []"
  "join_title (p # ps) = p @ concat (map (\<lambda>q. CHR '' '' # q) ps)"
  using join_title_loop [of "Suc 0" p ps]
  by (simp_all add: join_title_def)

lemma add_args_plain:
  assumes "\<forall>a \<in> set args. a = [] \<or> hd a \<noteq> CHR ''-''"
  shows "add_args args pr due title_parts = Inr (pr, due, title_parts @ args)"
  using assms
proof (induction args arbitrary: title_parts)
  case Nil
  show ?case by simp
next
  case (Cons a args)
  then have "a \<noteq> ''-p''" "a \<noteq> ''-d''" "\<not> (a \<noteq> [] \<and> hd a = CHR ''-'')"
    by auto
  with Cons show ?case by simp
qed

lemma add_cmd_result:
  assumes "args \<noteq> []" "add_args args CHR ''M'' None [] = Inr (pr, due, title_parts)"
    and "title_parts \<noteq> []" "load_tasks file = Inr v"
  shows "add_cmd args file =
    succeed (Some (save_tasks (v @ [\<lparr> t_id = next_id v, t_done = False, t_priority = pr, t_due = due,
        t_title = trim (join_title title_parts) \<rparr>])))
      (''Added task #'' @ show_int (sint (next_id v)) @ [NL])"
  using assms by (simp add: add_cmd_def Let_def)

text \<open>
  Claim C3 fails on the code at \<^verbatim>\<open>add ""\<close> and at \<^verbatim>\<open>add "  "\<close>: the title is empty
  after trimming, and the command exits with status 0 and writes the task. The line it
  writes is skipped by the next load.
\<close>

theorem add_empty_title_succeeds:
  "main [''add'', []] None
     = Inr \<lparr> exit_code = 0, data_file = Some (''1|0|M|-|'' @ [NL]),
             cout = ''Added task #1'' @ [NL], cerr = [] \<rparr>
   \<and> main [''add'', ''  ''] None
     = Inr \<lparr> exit_code = 0, data_file = Some (''1|0|M|-|'' @ [NL]),
             cout = ''Added task #1'' @ [NL], cerr = [] \<rparr>
   \<and> load_tasks (Some (''1|0|M|-|'' @ [NL])) = Inr []"
  by code_simp

section \<open>The id argument of done and rm\<close>

lemma stoi_digits_prefix:
  assumes "ds \<noteq> []" "list_all isdigit ds" "\<not> isdigit c"
  shows "stoi (ds @ c # rest) = stoi ds"
proof -
  obtain d ds' where ds: "ds = d # ds'"
    using assms(1) by (cases ds) auto
  with assms(2) have d: "isdigit d" by simp
  have tw: "takeWhile isdigit (ds @ c # rest) = ds" "takeWhile isdigit ds = ds"
    using assms(2,3) by (simp_all add: list_all_iff)
  show ?thesis
    using tw isdigit_not_space [OF d]
    by (simp add: stoi_def ds Let_def)
qed

lemma minus_one_negative: "(- 1 :: 32 word) <s 0"
  by (simp add: word_sless_alt)

text \<open>
  Claim C8, as amended. \<^verbatim>\<open>done\<close> and \<^verbatim>\<open>rm\<close> convert their argument with
  \<^verbatim>\<open>std::stoi\<close>. The command fails with status 1 and leaves the data file as it was
  when the conversion fails or gives a negative number, and when there is no argument.
  The conversion reads a leading run of digits and ignores what follows it.
\<close>

theorem id_argument_checked:
  "((cmd = ''done'' \<or> cmd = ''rm'') \<and> (case stoi a of Inl e \<Rightarrow> True | Inr i \<Rightarrow> i <s 0)
      \<longrightarrow> main (cmd # a # rest) file
           = Inr \<lparr> exit_code = 1, data_file = file, cout = [], cerr = ''Invalid id.'' @ [NL] \<rparr>)
   \<and> ((cmd = ''done'' \<or> cmd = ''rm'')
      \<longrightarrow> (\<exists>msg. main [cmd] file = Inr \<lparr> exit_code = 1, data_file = file, cout = [], cerr = msg \<rparr>))
   \<and> (ds \<noteq> [] \<and> list_all isdigit ds \<and> \<not> isdigit c \<longrightarrow> stoi (ds @ c # tail) = stoi ds)"
  using stoi_digits_prefix [of ds c tail]
  by (auto simp: main_def done_cmd_def rm_cmd_def parse_int_def fail_def Let_def
      minus_one_negative split: sum.splits)

text \<open>\<^verbatim>\<open>rm -3\<close> and \<^verbatim>\<open>done abc\<close> fail; \<^verbatim>\<open>1abc\<close> converts as \<^verbatim>\<open>1\<close>.\<close>

theorem id_argument_checked_witness:
  "(case stoi ''-3'' of Inl e \<Rightarrow> True | Inr i \<Rightarrow> i <s 0)
   \<and> main [''rm'', ''-3''] (Some (''1|0|M|-|x'' @ [NL]))
     = Inr \<lparr> exit_code = 1, data_file = Some (''1|0|M|-|x'' @ [NL]), cout = [],
             cerr = ''Invalid id.'' @ [NL] \<rparr>
   \<and> stoi ''abc'' = Inl invalid_argument
   \<and> main [''done'', ''abc''] None
     = Inr \<lparr> exit_code = 1, data_file = None, cout = [], cerr = ''Invalid id.'' @ [NL] \<rparr>
   \<and> stoi (''1'' @ CHR ''a'' # ''bc'') = stoi ''1''"
proof -
  have neg: "case stoi ''-3'' of Inl e \<Rightarrow> True | Inr i \<Rightarrow> i <s 0"
    by code_simp
  have bad: "stoi ''abc'' = Inl invalid_argument"
    by code_simp
  then have bad': "case stoi ''abc'' of Inl e \<Rightarrow> True | Inr i \<Rightarrow> i <s 0"
    by simp
  have digits: "''1'' \<noteq> [] \<and> list_all isdigit ''1'' \<and> \<not> isdigit CHR ''a''"
    by code_simp
  from id_argument_checked [of "''rm''" "''-3''" "[]" "Some (''1|0|M|-|x'' @ [NL])" "''1''" "CHR ''a''" "''bc''"]
    neg digits
  have 1: "main [''rm'', ''-3''] (Some (''1|0|M|-|x'' @ [NL]))
     = Inr \<lparr> exit_code = 1, data_file = Some (''1|0|M|-|x'' @ [NL]), cout = [],
             cerr = ''Invalid id.'' @ [NL] \<rparr>"
    and 3: "stoi (''1'' @ CHR ''a'' # ''bc'') = stoi ''1''"
    by blast+
  from id_argument_checked [of "''done''" "''abc''" "[]" None] bad'
  have 2: "main [''done'', ''abc''] None
     = Inr \<lparr> exit_code = 1, data_file = None, cout = [], cerr = ''Invalid id.'' @ [NL] \<rparr>"
    by blast
  from neg 1 bad 2 3 show ?thesis
    by blast
qed

text \<open>
  Claim C8 as stated fails on \<^verbatim>\<open>done 1abc\<close>: the argument is not a non-negative
  integer, and the command marks task 1 and exits with status 0.
\<close>

theorem id_argument_counterexample:
  "\<not> spec_nonneg_integer ''1abc''
   \<and> main [''done'', ''1abc''] (Some (''1|0|M|-|x'' @ [NL]))
     = Inr \<lparr> exit_code = 0, data_file = Some (''1|1|M|-|x'' @ [NL]),
             cout = ''Marked #1 done.'' @ [NL], cerr = [] \<rparr>"
  by code_simp

section \<open>Encoding a task and decoding the line\<close>

lemma encode_field_clean_id:
  assumes "SEP \<notin> set s" "NL \<notin> set s" "CR \<notin> set s"
  shows "encode_field s = s"
proof -
  have "map (\<lambda>c. if c = SEP then CHR ''/'' else c) s = s"
    using assms(1) by (induction s) auto
  moreover have "filter (\<lambda>c. c \<noteq> NL) s = s" "filter (\<lambda>c. c \<noteq> CR) s = s"
    using assms(2,3) by (auto simp: filter_id_conv)
  ultimately show ?thesis by (simp add: encode_field_def)
qed

lemma encode_field_idem: "encode_field (encode_field s) = encode_field s"
  by (rule encode_field_clean_id) (rule encode_field_clean)+

text \<open>
  Claim C2, as amended. For every task whose title is not empty and holds no separator,
  newline or carriage return, and whose priority and due date satisfy the representation
  invariant (as every task the program builds), decoding the encoded line gives the task
  back: same id, done flag, priority, due date and title.
\<close>

theorem encode_decode_roundtrip:
  assumes "field_safe t"
    and "SEP \<notin> set (t_title t)" "NL \<notin> set (t_title t)" "CR \<notin> set (t_title t)"
    and "t_title t \<noteq> []"
  shows "decode_line (encode_line t) = Inr (Some t)"
proof -
  have e: "encode_field (t_title t) = t_title t"
    using assms(2-4) by (rule encode_field_clean_id)
  then have "stored t = t"
    by (simp add: stored_def)
  with decode_encode_line [OF assms(1)] e assms(5) show ?thesis
    by simp
qed

text \<open>The task 2, done, H, 2024-05-01, "Buy milk" and its line.\<close>

theorem encode_decode_roundtrip_witness:
  "field_safe \<lparr>t_id = 2, t_done = True, t_priority = CHR ''H'', t_due = Some ''2024-05-01'', t_title = ''Buy milk''\<rparr>
   \<and> encode_line \<lparr>t_id = 2, t_done = True, t_priority = CHR ''H'', t_due = Some ''2024-05-01'', t_title = ''Buy milk''\<rparr>
       = ''2|1|H|2024-05-01|Buy milk''
   \<and> decode_line ''2|1|H|2024-05-01|Buy milk''
       = Inr (Some \<lparr>t_id = 2, t_done = True, t_priority = CHR ''H'', t_due = Some ''2024-05-01'', t_title = ''Buy milk''\<rparr>)"
proof -
  let ?t = "\<lparr>t_id = 2, t_done = True, t_priority = CHR ''H'', t_due = Some ''2024-05-01'', t_title = ''Buy milk''\<rparr>"
  have safe: "field_safe ?t"
    by code_simp
  have sep: "SEP \<notin> set (t_title ?t)" and nl: "NL \<notin> set (t_title ?t)" and cr: "CR \<notin> set (t_title ?t)"
    and ne: "t_title ?t \<noteq> []"
    by code_simp+
  have line: "encode_line ?t = ''2|1|H|2024-05-01|Buy milk''"
    by code_simp
  from encode_decode_roundtrip [OF safe sep nl cr ne] have "decode_line (encode_line ?t) = Inr (Some ?t)" .
  with safe line show ?thesis
    by (simp only: simp_thms)
qed

text \<open>
  Claim C2 as stated fails at the task with id 1, priority M, no due date and the empty
  title: its title holds no separator, newline or carriage return, and decoding its line
  gives no task.
\<close>

theorem roundtrip_empty_title_fails:
  "decode_line (encode_line \<lparr>t_id = 1, t_done = False, t_priority = CHR ''M'', t_due = None, t_title = []\<rparr>)
     = Inr None"
  by code_simp

section \<open>Marking a task done twice\<close>

lemma mark_done_found: "snd (mark_done n v) = list_ex (\<lambda>t. t_id t = n) v"
  by (induction v) (auto split: prod.splits)

lemma mark_done_titles: "map t_title (fst (mark_done n v)) = map t_title v"
  by (induction v) (auto split: prod.splits)

lemma mark_done_safe: "list_all field_safe v \<Longrightarrow> list_all field_safe (fst (mark_done n v))"
  by (induction v) (auto simp: field_safe_def split: prod.splits)

lemma mark_done_twice: "mark_done n (fst (mark_done n v)) = mark_done n v"
  by (induction v) (auto split: prod.splits)

lemma mark_done_stored:
  "mark_done n (map stored v) = (map stored (fst (mark_done n v)), snd (mark_done n v))"
  by (induction v) (auto simp: stored_def split: prod.splits)

lemma encode_line_stored: "encode_line (stored t) = encode_line t"
  by (simp add: encode_line_def stored_def encode_field_idem)

lemma save_tasks_stored: "save_tasks (map stored v) = save_tasks v"
  by (simp add: save_tasks_def encode_line_stored comp_def)

lemma filter_titles:
  assumes "\<forall>t \<in> set v. encode_field (t_title t) \<noteq> []"
  shows "filter (\<lambda>t. encode_field (t_title t) \<noteq> []) (fst (mark_done n v)) = fst (mark_done n v)"
proof -
  have "set (map t_title (fst (mark_done n v))) = set (map t_title v)"
    by (simp only: mark_done_titles)
  then have "\<forall>t \<in> set (fst (mark_done n v)). encode_field (t_title t) \<noteq> []"
    using assms by (metis (no_types, lifting) image_iff list.set_map)
  then show ?thesis by (simp add: filter_id_conv)
qed

lemma done_cmd_twice:
  assumes "load_tasks file = Inr v"
    and "\<forall>t \<in> set v. encode_field (t_title t) \<noteq> []"
    and "stoi a = Inr n" "\<not> n <s 0" "list_ex (\<lambda>t. t_id t = n) v"
  shows "done_cmd [a] file
      = succeed (Some (save_tasks (fst (mark_done n v)))) (''Marked #'' @ show_int (sint n) @ '' done.'' @ [NL])"
    and "done_cmd [a] (Some (save_tasks (fst (mark_done n v))))
      = succeed (Some (save_tasks (fst (mark_done n v)))) (''Marked #'' @ show_int (sint n) @ '' done.'' @ [NL])"
proof -
  let ?v' = "fst (mark_done n v)"
  have found: "snd (mark_done n v)"
    using assms(5) by (simp add: mark_done_found)
  have p: "parse_int a = n"
    using assms(3) by (simp add: parse_int_def)
  show "done_cmd [a] file
      = succeed (Some (save_tasks ?v')) (''Marked #'' @ show_int (sint n) @ '' done.'' @ [NL])"
    using assms(1,4) found p by (cases "mark_done n v") (simp add: done_cmd_def)
  have "list_all field_safe ?v'"
    using assms(1) by (intro mark_done_safe load_tasks_safe)
  then have l: "load_tasks (Some (save_tasks ?v')) = Inr (map stored ?v')"
    using filter_titles [OF assms(2), of n] by (simp add: load_save_tasks)
  have m: "mark_done n (map stored ?v') = (map stored ?v', True)"
    using found by (simp add: mark_done_stored mark_done_twice)
  show "done_cmd [a] (Some (save_tasks ?v'))
      = succeed (Some (save_tasks ?v')) (''Marked #'' @ show_int (sint n) @ '' done.'' @ [NL])"
    using assms(4) p l m by (simp add: done_cmd_def save_tasks_stored)
qed

text \<open>
  Claim C5, as amended. For every store that loads, in which the title of every task is
  still not empty once encoded, and which holds a task whose id \<open>n\<close> is not negative:
  \<^verbatim>\<open>done n\<close> exits with status 0, and run again on the store it left it gives the
  same outcome, status 0 and the same store.
\<close>

theorem done_twice:
  assumes "load_tasks file = Inr v"
    and "\<forall>t \<in> set v. encode_field (t_title t) \<noteq> []"
    and "stoi a = Inr n" "\<not> n <s 0" "list_ex (\<lambda>t. t_id t = n) v"
  shows "\<exists>r. main [''done'', a] file = Inr r \<and> exit_code r = 0
           \<and> main [''done'', a] (data_file r) = Inr r"
  using done_cmd_twice [OF assms]
  by (simp add: main_def succeed_def)

text \<open>The store \<^verbatim>\<open>1|0|M|-|x\<close> and \<^verbatim>\<open>done 1\<close>, twice.\<close>

theorem done_twice_witness:
  "load_tasks (Some (''1|0|M|-|x'' @ [NL]))
     = Inr [\<lparr>t_id = 1, t_done = False, t_priority = CHR ''M'', t_due = None, t_title = ''x''\<rparr>]
   \<and> main [''done'', ''1''] (Some (''1|0|M|-|x'' @ [NL]))
     = Inr \<lparr> exit_code = 0, data_file = Some (''1|1|M|-|x'' @ [NL]),
             cout = ''Marked #1 done.'' @ [NL], cerr = [] \<rparr>
   \<and> main [''done'', ''1''] (Some (''1|1|M|-|x'' @ [NL]))
     = Inr \<lparr> exit_code = 0, data_file = Some (''1|1|M|-|x'' @ [NL]),
             cout = ''Marked #1 done.'' @ [NL], cerr = [] \<rparr>"
proof -
  let ?v = "[\<lparr>t_id = 1, t_done = False, t_priority = CHR ''M'', t_due = None, t_title = ''x''\<rparr>]"
  let ?r = "\<lparr> exit_code = 0, data_file = Some (''1|1|M|-|x'' @ [NL]),
             cout = ''Marked #1 done.'' @ [NL], cerr = [] \<rparr>"
  have load: "load_tasks (Some (''1|0|M|-|x'' @ [NL])) = Inr ?v"
    by code_simp
  have titles: "\<forall>t \<in> set ?v. encode_field (t_title t) \<noteq> []"
    by code_simp
  have conv: "stoi ''1'' = Inr 1"
    by code_simp
  have nonneg: "\<not> (1 :: 32 word) <s 0"
    by code_simp
  have has: "list_ex (\<lambda>t. t_id t = 1) ?v"
    by code_simp
  have first: "main [''done'', ''1''] (Some (''1|0|M|-|x'' @ [NL])) = Inr ?r"
    by code_simp
  from done_twice [OF load titles conv nonneg has] obtain r
    where r: "main [''done'', ''1''] (Some (''1|0|M|-|x'' @ [NL])) = Inr r"
      "main [''done'', ''1''] (data_file r) = Inr r"
    by blast
  from r(1) first have "r = ?r"
    by simp
  with r(2) have "main [''done'', ''1''] (Some (''1|1|M|-|x'' @ [NL])) = Inr ?r"
    by simp
  with load first show ?thesis
    by (simp only: simp_thms)
qed

text \<open>
  Claim C5 as stated fails at the store \<^verbatim>\<open>1|0|M|-||x\<close>, which holds task 1 with the
  empty title: the first \<^verbatim>\<open>done 1\<close> exits with status 0 and writes \<^verbatim>\<open>1|1|M|-|\<close>,
  and the second finds no task and exits with status 1. It also fails at a store that
  holds a task with a negative id: \<^verbatim>\<open>done -5\<close> is refused.
\<close>

theorem done_twice_fails:
  "load_tasks (Some (''1|0|M|-||x'' @ [NL]))
     = Inr [\<lparr>t_id = 1, t_done = False, t_priority = CHR ''M'', t_due = None, t_title = []\<rparr>]
   \<and> main [''done'', ''1''] (Some (''1|0|M|-||x'' @ [NL]))
     = Inr \<lparr> exit_code = 0, data_file = Some (''1|1|M|-|'' @ [NL]),
             cout = ''Marked #1 done.'' @ [NL], cerr = [] \<rparr>
   \<and> main [''done'', ''1''] (Some (''1|1|M|-|'' @ [NL]))
     = Inr \<lparr> exit_code = 1, data_file = Some (''1|1|M|-|'' @ [NL]),
             cout = [], cerr = ''Task not found.'' @ [NL] \<rparr>
   \<and> load_tasks (Some (''-5|0|M|-|x'' @ [NL]))
     = Inr [\<lparr>t_id = - 5, t_done = False, t_priority = CHR ''M'', t_due = None, t_title = ''x''\<rparr>]
   \<and> main [''done'', ''-5''] (Some (''-5|0|M|-|x'' @ [NL]))
     = Inr \<lparr> exit_code = 1, data_file = Some (''-5|0|M|-|x'' @ [NL]),
             cout = [], cerr = ''Invalid id.'' @ [NL] \<rparr>"
  by code_simp

end
